theory Spec2Isabelle
  imports Complex_Main "HOL-Library.Word"
begin

section \<open>Sparse coding with dictionary learning (mlpack, sparse\_coding\_impl.hpp)\<close>

text \<open>
  The development embeds the functions of \<^verbatim>\<open>sparse_coding_impl.hpp\<close>.  Dense
  matrices are kept with their column count and the list of their rows; the number of
  rows is the length of that list.  Values of type \<^verbatim>\<open>double\<close> are idealised as
  real numbers: no rounding is modelled.  Every exception the matrix library raises
  (index out of bounds, incompatible dimensions, a failed solve) is a value of type
  \<open>fault\<close>, returned on the left of a sum.
\<close>

subsection \<open>Faults and matrices\<close>

datatype fault =
    OutOfBounds      \<comment> \<open>a checked element, span or column access outside the matrix\<close>
  | SizeMismatch     \<comment> \<open>operands of incompatible dimensions\<close>
  | SolveFailed      \<comment> \<open>\<^verbatim>\<open>solve()\<close> or \<^verbatim>\<open>inv()\<close> gave up\<close>
  | DivByZero        \<comment> \<open>integer division by zero\<close>
  | NonFinite        \<comment> \<open>a floating-point division by zero: the result is NaN or infinite\<close>
  | InitFailed       \<comment> \<open>the dictionary initializer raised\<close>

record mat =
  n_cols :: nat
  rws :: "real list list"

definition n_rows :: "mat \<Rightarrow> nat" where
  "n_rows M = length (rws M)"

text \<open>A matrix is well formed when each of its rows has \<open>n_cols\<close> entries.\<close>

definition wf_mat :: "mat \<Rightarrow> bool" where
  "wf_mat M = list_all (\<lambda>r. length r = n_cols M) (rws M)"

text \<open>
  \<^verbatim>\<open>set_size(r, c)\<close> and the sized constructor allocate without writing: the entry at
  \<open>(i, j)\<close> holds whatever the memory held, given here by \<open>uninit i j\<close>.
\<close>

definition set_size :: "(nat \<Rightarrow> nat \<Rightarrow> real) \<Rightarrow> nat \<Rightarrow> nat \<Rightarrow> mat" where
  "set_size uninit r c = \<lparr>n_cols = c, rws = map (\<lambda>i. map (uninit i) [0..<c]) [0..<r]\<rparr>"

text \<open>\<^verbatim>\<open>X(span(a, b), span::all)\<close>, read: the bounds are checked.\<close>

definition span_rows :: "mat \<Rightarrow> nat \<Rightarrow> nat \<Rightarrow> fault + real list list" where
  "span_rows X a b =
     (if a \<le> b \<and> b < n_rows X then Inr (take (b + 1 - a) (drop a (rws X)))
      else Inl OutOfBounds)"

text \<open>\<^verbatim>\<open>M(span(a, b), span::all) = blk\<close>: bounds and block size are checked.\<close>

definition set_span_rows :: "mat \<Rightarrow> nat \<Rightarrow> nat \<Rightarrow> real list list \<Rightarrow> fault + mat" where
  "set_span_rows M a b blk =
     (if a \<le> b \<and> b < n_rows M then
        (if length blk = b + 1 - a \<and> list_all (\<lambda>r. length r = n_cols M) blk
         then Inr (M\<lparr>rws := take a (rws M) @ blk @ drop (b + 1) (rws M)\<rparr>)
         else Inl SizeMismatch)
      else Inl OutOfBounds)"

subsection \<open>RemoveRows\<close>

text \<open>
  The \<^verbatim>\<open>while (removeInd < nRemove - 1)\<close> loop.  Sizes are natural numbers; where
  the source's unsigned subtraction \<^verbatim>\<open>rowsToRemove[removeInd + 1] - rowsToRemove[removeInd] - 1\<close>
  would wrap (the next index is not larger), the span read
  \<^verbatim>\<open>X(span(rowsToRemove[removeInd] + 1, rowsToRemove[removeInd + 1] - 1), ...)\<close> has its
  first bound above its last one, which the library rejects.
\<close>

function RemoveRows_loop ::
  "mat \<Rightarrow> nat list \<Rightarrow> nat \<Rightarrow> nat \<Rightarrow> mat \<Rightarrow> fault + (nat \<times> nat \<times> mat)" where
  "RemoveRows_loop X rowsToRemove curRow removeInd modX =
     (if removeInd < length rowsToRemove - 1 then
        (if rowsToRemove ! (removeInd + 1) \<le> rowsToRemove ! removeInd then Inl OutOfBounds
         else
           let height = rowsToRemove ! (removeInd + 1) - rowsToRemove ! removeInd - 1 in
           if height > 0 then
             (case span_rows X (rowsToRemove ! removeInd + 1)
                     (rowsToRemove ! (removeInd + 1) - 1) of
                Inl e \<Rightarrow> Inl e
              | Inr blk \<Rightarrow>
                 (case set_span_rows modX curRow (curRow + height - 1) blk of
                    Inl e \<Rightarrow> Inl e
                  | Inr modX' \<Rightarrow>
                      RemoveRows_loop X rowsToRemove (curRow + height) (removeInd + 1) modX'))
           else RemoveRows_loop X rowsToRemove curRow (removeInd + 1) modX)
      else Inr (curRow, removeInd, modX))"
  by pat_completeness auto
termination
  by (relation "measure (\<lambda>(X, rowsToRemove, curRow, removeInd, modX).
        length rowsToRemove - 1 - removeInd)") auto

declare RemoveRows_loop.simps [simp del]

text \<open>
  The block before the first removed row (\<^verbatim>\<open>if (rowsToRemove(0) > 0)\<close>): it returns
  the new \<open>curRow\<close> and the matrix being filled.
\<close>

definition RemoveRows_first :: "mat \<Rightarrow> nat list \<Rightarrow> mat \<Rightarrow> fault + (nat \<times> mat)" where
  "RemoveRows_first X rowsToRemove modX =
     (let curRow = 0 in
      if rowsToRemove ! 0 > 0 then
        (let height = rowsToRemove ! 0 in
         case span_rows X 0 (rowsToRemove ! 0 - 1) of
           Inl e \<Rightarrow> Inl e
         | Inr blk \<Rightarrow>
            (case set_span_rows modX curRow (curRow + height - 1) blk of
               Inl e \<Rightarrow> Inl e
             | Inr modX' \<Rightarrow> Inr (curRow + height, modX')))
      else Inr (curRow, modX))"

text \<open>
  The block after the last removed row
  (\<^verbatim>\<open>if (rowsToRemove[removeInd] < rows - 1)\<close>).
\<close>

definition RemoveRows_last :: "mat \<Rightarrow> nat list \<Rightarrow> nat \<Rightarrow> nat \<Rightarrow> nat \<Rightarrow> mat \<Rightarrow> fault + mat" where
  "RemoveRows_last X rowsToRemove nKeep curRow removeInd modX =
     (if rowsToRemove ! removeInd < n_rows X - 1 then
        (case span_rows X (rowsToRemove ! removeInd + 1) (n_rows X - 1) of
           Inl e \<Rightarrow> Inl e
         | Inr blk \<Rightarrow> set_span_rows modX curRow (nKeep - 1) blk)
      else Inr modX)"

text \<open>
  The whole function.  \<open>nKeep = rows - nRemove\<close> is an unsigned subtraction: with more
  indices than rows it wraps, and the run ends in an exception (an allocation that
  cannot be satisfied, or a span outside \<open>X\<close>), reported as \<open>SizeMismatch\<close>.
\<close>

definition RemoveRows :: "(nat \<Rightarrow> nat \<Rightarrow> real) \<Rightarrow> mat \<Rightarrow> nat list \<Rightarrow> fault + mat" where
  "RemoveRows uninit X rowsToRemove =
     (let cols = n_cols X; rows = n_rows X; nRemove = length rowsToRemove in
      if nRemove = 0 then Inr X
      else if rows < nRemove then Inl SizeMismatch
      else
        let nKeep = rows - nRemove;
            modX = set_size uninit nKeep cols
        in case RemoveRows_first X rowsToRemove modX of
             Inl e \<Rightarrow> Inl e
           | Inr (curRow, modX1) \<Rightarrow>
              (case RemoveRows_loop X rowsToRemove curRow 0 modX1 of
                 Inl e \<Rightarrow> Inl e
               | Inr (curRow', removeInd, modX2) \<Rightarrow>
                   RemoveRows_last X rowsToRemove nKeep curRow' removeInd modX2))"

text \<open>
  The rows that survive, written as the gaps between consecutive removed indices: the
  rows from \<open>s\<close> up to the first removed index, then what follows it.
\<close>

fun kept_from :: "'a list \<Rightarrow> nat \<Rightarrow> nat list \<Rightarrow> 'a list" where
  "kept_from xs s [] = drop s xs"
| "kept_from xs s (r # rs) = take (r - s) (drop s xs) @ kept_from xs (r + 1) rs"

subsection \<open>Fault propagation\<close>

text \<open>An exception leaves the function at once: the rest of the computation is skipped.\<close>

fun bindF :: "fault + 'a \<Rightarrow> ('a \<Rightarrow> fault + 'b) \<Rightarrow> fault + 'b" where
  "bindF (Inl e) f = Inl e"
| "bindF (Inr x) f = f x"

subsection \<open>The matrix operations the source calls\<close>

type_synonym vec = "real list"

definition zeros :: "nat \<Rightarrow> nat \<Rightarrow> mat" where
  "zeros r c = \<lparr>n_cols = c, rws = replicate r (replicate c 0)\<rparr>"

definition empty_mat :: mat where
  "empty_mat = \<lparr>n_cols = 0, rws = []\<rparr>"

text \<open>\<^verbatim>\<open>M.col(j)\<close>, read, and \<^verbatim>\<open>M.row(i)\<close>: both are checked accesses.\<close>

definition col :: "mat \<Rightarrow> nat \<Rightarrow> fault + vec" where
  "col M j = (if j < n_cols M then Inr (map (\<lambda>r. r ! j) (rws M)) else Inl OutOfBounds)"

definition row :: "mat \<Rightarrow> nat \<Rightarrow> fault + vec" where
  "row M i = (if i < n_rows M then Inr (rws M ! i) else Inl OutOfBounds)"

text \<open>\<^verbatim>\<open>M.col(j) = v\<close>: the column must exist and \<open>v\<close> must have one entry per row.\<close>

definition set_col :: "mat \<Rightarrow> nat \<Rightarrow> vec \<Rightarrow> fault + mat" where
  "set_col M j v =
     (if j < n_cols M then
        (if length v = n_rows M
         then Inr (M\<lparr>rws := map (\<lambda>(r, x). r[j := x]) (zip (rws M) v)\<rparr>)
         else Inl SizeMismatch)
      else Inl OutOfBounds)"

definition trans_mat :: "mat \<Rightarrow> mat" where
  "trans_mat M = \<lparr>n_cols = n_rows M, rws = map (\<lambda>j. map (\<lambda>r. r ! j) (rws M)) [0..<n_cols M]\<rparr>"

definition dot :: "vec \<Rightarrow> vec \<Rightarrow> fault + real" where
  "dot a b = (if length a = length b then Inr (sum_list (map (\<lambda>(x, y). x * y) (zip a b)))
              else Inl SizeMismatch)"

definition mat_mult :: "mat \<Rightarrow> mat \<Rightarrow> fault + mat" where
  "mat_mult A B =
     (if n_cols A = n_rows B then
        Inr \<lparr>n_cols = n_cols B,
             rws = map (\<lambda>ra. map (\<lambda>j. sum_list (map (\<lambda>(x, rb). x * rb ! j) (zip ra (rws B))))
                        [0..<n_cols B]) (rws A)\<rparr>
      else Inl SizeMismatch)"

text \<open>Entrywise combination of two matrices of the same shape (\<open>+\<close>, \<open>-\<close>, \<open>%\<close>).\<close>

definition mat_zip :: "(real \<Rightarrow> real \<Rightarrow> real) \<Rightarrow> mat \<Rightarrow> mat \<Rightarrow> fault + mat" where
  "mat_zip f A B =
     (if n_rows A = n_rows B \<and> n_cols A = n_cols B then
        Inr \<lparr>n_cols = n_cols A,
             rws = map (\<lambda>(ra, rb). map (\<lambda>(x, y). f x y) (zip ra rb)) (zip (rws A) (rws B))\<rparr>
      else Inl SizeMismatch)"

definition mat_add :: "mat \<Rightarrow> mat \<Rightarrow> fault + mat" where
  "mat_add = mat_zip (+)"

definition mat_sub :: "mat \<Rightarrow> mat \<Rightarrow> fault + mat" where
  "mat_sub = mat_zip (-)"

definition schur :: "mat \<Rightarrow> mat \<Rightarrow> fault + mat" where
  "schur = mat_zip (*)"

definition mat_map :: "(real \<Rightarrow> real) \<Rightarrow> mat \<Rightarrow> mat" where
  "mat_map f M = M\<lparr>rws := map (map f) (rws M)\<rparr>"

definition scale :: "real \<Rightarrow> mat \<Rightarrow> mat" where
  "scale c = mat_map (\<lambda>x. c * x)"

definition vec_zip :: "(real \<Rightarrow> real \<Rightarrow> real) \<Rightarrow> vec \<Rightarrow> vec \<Rightarrow> fault + vec" where
  "vec_zip f a b = (if length a = length b then Inr (map (\<lambda>(x, y). f x y) (zip a b))
                    else Inl SizeMismatch)"

definition diagmat :: "vec \<Rightarrow> mat" where
  "diagmat v = \<lparr>n_cols = length v,
                 rws = map (\<lambda>i. map (\<lambda>j. if i = j then v ! i else 0) [0..<length v])
                        [0..<length v]\<rparr>"

text \<open>A vector is a one-column matrix where \<^verbatim>\<open>solve\<close> wants a matrix.\<close>

definition as_col :: "vec \<Rightarrow> mat" where
  "as_col v = \<lparr>n_cols = 1, rws = map (\<lambda>x. [x]) v\<rparr>"

text \<open>\<^verbatim>\<open>sum(M, 1)\<close>: the sum of each row.\<close>

definition sum_dim1 :: "mat \<Rightarrow> vec" where
  "sum_dim1 M = map sum_list (rws M)"

text \<open>\<^verbatim>\<open>sum(sum(M))\<close> and \<^verbatim>\<open>accu\<close>: the sum of all entries.\<close>

definition sum_all :: "mat \<Rightarrow> real" where
  "sum_all M = sum_list (map sum_list (rws M))"

text \<open>\<^verbatim>\<open>trace\<close> wants a square matrix.\<close>

definition trace :: "mat \<Rightarrow> fault + real" where
  "trace M = (if n_rows M = n_cols M then Inr (sum_list (map (\<lambda>i. rws M ! i ! i) [0..<n_rows M]))
              else Inl SizeMismatch)"

text \<open>\<^verbatim>\<open>norm(v, 2)\<close> and \<^verbatim>\<open>norm(M, "fro")\<close>.\<close>

definition norm2 :: "vec \<Rightarrow> real" where
  "norm2 v = sqrt (sum_list (map (\<lambda>x. x * x) v))"

definition norm_fro :: "mat \<Rightarrow> real" where
  "norm_fro M = sqrt (sum_all (mat_map (\<lambda>x. x * x) M))"

text \<open>
  \<^verbatim>\<open>find(M)\<close>: the linear indices of the nonzero entries, in the column-major order
  of the library (entry \<open>(i, j)\<close> has index \<open>i + j * n_rows\<close>), ascending.
\<close>

definition find_nonzero :: "mat \<Rightarrow> nat list" where
  "find_nonzero M =
     concat (map (\<lambda>j. map (\<lambda>i. i + j * n_rows M)
                        (filter (\<lambda>i. rws M ! i ! j \<noteq> 0) [0..<n_rows M]))
                 [0..<n_cols M])"

subsection \<open>The object and what it takes from outside\<close>

record sparse_coding =
  atoms :: nat
  data :: mat
  dictionary :: mat
  codes :: mat
  lambda1 :: real
  lambda2 :: real

text \<open>
  The routines this file calls and does not define are parameters of the model:
  \<^item> \<open>lars\<close> is \<^verbatim>\<open>regression::LARS(useCholesky, matGram, lambda1, lambda2).Regress(dictionary, x, code, true)\<close>:
    from the Gram matrix, the two weights, the dictionary, a data column and the
    current code column it gives the new code column;
  \<^item> \<open>solve\<close> and \<open>inv_mat\<close> are the library's \<^verbatim>\<open>solve(A, B)\<close> and \<^verbatim>\<open>inv(A)\<close>;
  \<^item> \<open>RandInt\<close> is \<^verbatim>\<open>math::RandInt\<close>, threading the generator's state \<open>'r\<close>;
  \<^item> \<open>fresh\<close> is what freshly allocated matrix memory holds.
\<close>

record 'r ext =
  lars :: "mat \<Rightarrow> real \<Rightarrow> real \<Rightarrow> mat \<Rightarrow> vec \<Rightarrow> vec \<Rightarrow> fault + vec"
  solve :: "mat \<Rightarrow> mat \<Rightarrow> fault + mat"
  inv_mat :: "mat \<Rightarrow> fault + mat"
  RandInt :: "'r \<Rightarrow> nat \<Rightarrow> nat \<times> 'r"
  fresh :: "nat \<Rightarrow> nat \<Rightarrow> real"

definition OBJ_TOL :: real where
  "OBJ_TOL = 1 / 100"

definition NEWTON_TOL :: real where
  "NEWTON_TOL = 1 / 1000000"

text \<open>The largest finite \<^verbatim>\<open>double\<close>.\<close>

definition DBL_MAX :: real where
  "DBL_MAX = (2 - 1 / 2 ^ 52) * 2 ^ 1023"

subsection \<open>The constructor\<close>

text \<open>
  \<^verbatim>\<open>codes(atoms, data.n_cols)\<close> sizes the code matrix without writing to it; the
  dictionary starts as the empty matrix and is handed to the initializer, a template
  parameter of the class, which may raise.  Nothing else happens: no argument is
  inspected.
\<close>

definition SparseCoding ::
  "(mat \<Rightarrow> nat \<Rightarrow> mat \<Rightarrow> fault + mat) \<Rightarrow> (nat \<Rightarrow> nat \<Rightarrow> real) \<Rightarrow>
   mat \<Rightarrow> nat \<Rightarrow> real \<Rightarrow> real \<Rightarrow> fault + sparse_coding" where
  "SparseCoding Initialize uninit data' atoms' lambda1' lambda2' =
     bindF (Initialize data' atoms' empty_mat) (\<lambda>dictionary'.
       Inr \<lparr>atoms = atoms', data = data', dictionary = dictionary',
            codes = set_size uninit atoms' (n_cols data'),
            lambda1 = lambda1', lambda2 = lambda2'\<rparr>)"

subsection \<open>Objective\<close>

definition Objective :: "sparse_coding \<Rightarrow> fault + real" where
  "Objective s =
     (let l11NormZ = sum_all (mat_map abs (codes s)) in
      bindF (mat_mult (dictionary s) (codes s)) (\<lambda>DZ.
      bindF (mat_sub (data s) DZ) (\<lambda>residual.
        let froNormResidual = norm_fro residual in
        if lambda2 s > 0 then
          (let froNormZ = norm_fro (codes s) in
           Inr (0.5 * (froNormResidual ^ 2 + lambda2 s * froNormZ ^ 2) + lambda1 s * l11NormZ))
        else
          Inr (0.5 * froNormResidual ^ 2 + lambda1 s * l11NormZ))))"

subsection \<open>ProjectDictionary\<close>



subsection \<open>OptimizeCode\<close>

text \<open>
  One regression per data column; the result is written into the same column of the
  code matrix, which is its storage.  \<^verbatim>\<open>unsafe_col\<close> is not checked by the library:
  a column index outside the matrix, which reads foreign memory there, is reported
  here as \<open>OutOfBounds\<close>.  The progress message every hundred columns is left out.
\<close>

fun OptimizeCode_loop ::
  "'r ext \<Rightarrow> mat \<Rightarrow> sparse_coding \<Rightarrow> nat list \<Rightarrow> fault + sparse_coding" where
  "OptimizeCode_loop E matGram s [] = Inr s"
| "OptimizeCode_loop E matGram s (i # is) =
     bindF (col (codes s) i) (\<lambda>code.
     bindF (col (data s) i) (\<lambda>x.
     bindF (lars E matGram (lambda1 s) (lambda2 s) (dictionary s) x code) (\<lambda>code'.
     bindF (set_col (codes s) i code') (\<lambda>codes'.
       OptimizeCode_loop E matGram (s\<lparr>codes := codes'\<rparr>) is))))"

definition OptimizeCode :: "'r ext \<Rightarrow> sparse_coding \<Rightarrow> fault + sparse_coding" where
  "OptimizeCode E s =
     bindF (mat_mult (trans_mat (dictionary s)) (dictionary s)) (\<lambda>matGram.
       OptimizeCode_loop E matGram s [0..<n_cols (data s)])"

subsection \<open>OptimizeDictionary\<close>

text \<open>
  The neighbour count at the head of the function.  \<^verbatim>\<open>adjacencies(0) / atoms\<close> is an
  integer division, \<^verbatim>\<open>(curPointInd + 1) * atoms\<close> a \<^verbatim>\<open>size_t\<close> product (64 bits,
  wrapping), and \<^verbatim>\<open>++neighborCounts(curPointInd)\<close> a checked access to a vector with
  one entry per data column.  The first adjacency only sets the column; it is not
  counted.
\<close>

fun count_neighbors_loop ::
  "nat \<Rightarrow> nat list \<Rightarrow> nat \<Rightarrow> nat \<Rightarrow> nat list \<Rightarrow> fault + nat list" where
  "count_neighbors_loop atoms' [] curPointInd nextColIndex neighborCounts = Inr neighborCounts"
| "count_neighbors_loop atoms' (a # rest) curPointInd nextColIndex neighborCounts =
     (let curPointInd' = (if a \<ge> nextColIndex then a div atoms' else curPointInd);
          nextColIndex' = (if a \<ge> nextColIndex then ((curPointInd' + 1) * atoms') mod 2 ^ 64
                           else nextColIndex)
      in if curPointInd' < length neighborCounts then
           count_neighbors_loop atoms' rest curPointInd' nextColIndex'
             (neighborCounts[curPointInd' := neighborCounts ! curPointInd' + 1])
         else Inl OutOfBounds)"

definition count_neighbors :: "nat \<Rightarrow> nat \<Rightarrow> nat list \<Rightarrow> fault + nat list" where
  "count_neighbors atoms' n adjacencies =
     (let neighborCounts = replicate n 0 in
      case adjacencies of
        [] \<Rightarrow> Inr neighborCounts
      | a0 # rest \<Rightarrow>
          if atoms' = 0 then Inl DivByZero
          else
            let curPointInd = a0 div atoms';
                nextColIndex = ((curPointInd + 1) * atoms') mod 2 ^ 64
            in count_neighbors_loop atoms' rest curPointInd nextColIndex neighborCounts)"

text \<open>
  The partition of the atoms: atom \<open>j\<close> is inactive when \<^verbatim>\<open>accu(codes.row(j) != 0) == 0\<close>,
  that is, when row \<open>j\<close> of the code matrix has no nonzero entry.
\<close>

fun partition_atoms ::
  "mat \<Rightarrow> nat list \<Rightarrow> nat list \<Rightarrow> nat list \<Rightarrow> fault + (nat list \<times> nat list)" where
  "partition_atoms codes' [] inactiveAtoms activeAtoms = Inr (inactiveAtoms, activeAtoms)"
| "partition_atoms codes' (j # js) inactiveAtoms activeAtoms =
     bindF (row codes' j) (\<lambda>r.
       if length (filter (\<lambda>x. x \<noteq> 0) r) = 0
       then partition_atoms codes' js (inactiveAtoms @ [j]) activeAtoms
       else partition_atoms codes' js inactiveAtoms (activeAtoms @ [j]))"

text \<open>A one-column matrix read back as a vector.\<close>

definition of_col :: "mat \<Rightarrow> fault + vec" where
  "of_col M = (if n_cols M = 1 then col M 0 else Inl SizeMismatch)"

text \<open>
  The two values the line search compares, for a step \<open>alpha\<close>:
  \<^verbatim>\<open>fOld = -(-trace(trans(codesXT) * matAInvZXT) - sumDualVars)\<close> and
  \<^verbatim>\<open>fNew = -(-trace(trans(codesXT) * solve(codesZT + diagmat(dualVars + alpha * searchDirection), codesXT)) - (sumDualVars + alpha * sum(searchDirection)))\<close>.
\<close>

definition armijo_values ::
  "'r ext \<Rightarrow> mat \<Rightarrow> mat \<Rightarrow> mat \<Rightarrow> vec \<Rightarrow> vec \<Rightarrow> real \<Rightarrow> fault + (real \<times> real)" where
  "armijo_values E codesXT codesZT matAInvZXT dualVars searchDirection alpha =
     (let sumDualVars = sum_list dualVars in
      bindF (mat_mult (trans_mat codesXT) matAInvZXT) (\<lambda>P.
      bindF (trace P) (\<lambda>trOld.
        let fOld = - (- trOld - sumDualVars) in
        bindF (vec_zip (+) dualVars (map (\<lambda>x. alpha * x) searchDirection)) (\<lambda>dualVars'.
        bindF (mat_add codesZT (diagmat dualVars')) (\<lambda>A'.
        bindF (solve E A' codesXT) (\<lambda>S.
        bindF (mat_mult (trans_mat codesXT) S) (\<lambda>P'.
        bindF (trace P') (\<lambda>trNew.
          let fNew = - (- trNew - (sumDualVars + alpha * sum_list searchDirection))
          in Inr (fOld, fNew)))))))))"

text \<open>
  The Armijo line search, \<^verbatim>\<open>while (true)\<close> with \<open>rho = 0.9\<close>: it has no bound, so it is
  a partial function: \<open>None\<close> is a search that never accepts a step.  It returns the
  scaled direction and the improvement \<open>fOld - fNew\<close>.
\<close>

partial_function (option) armijo ::
  "'r ext \<Rightarrow> mat \<Rightarrow> mat \<Rightarrow> mat \<Rightarrow> vec \<Rightarrow> vec \<Rightarrow> real \<Rightarrow> real \<Rightarrow> (fault + (vec \<times> real)) option" where
  "armijo E codesXT codesZT matAInvZXT dualVars searchDirection sufficientDecrease alpha =
     (case armijo_values E codesXT codesZT matAInvZXT dualVars searchDirection alpha of
        Inl e \<Rightarrow> Some (Inl e)
      | Inr (fOld, fNew) \<Rightarrow>
          if fNew \<le> fOld + alpha * sufficientDecrease
          then Some (Inr (map (\<lambda>x. alpha * x) searchDirection, fOld - fNew))
          else armijo E codesXT codesZT matAInvZXT dualVars searchDirection sufficientDecrease
                 (alpha * 0.9))"

text \<open>
  One Newton iteration up to the line search: \<open>A\<close>, \<open>matAInvZXT\<close>, the gradient, the
  Hessian \<^verbatim>\<open>-(-2 * (matAInvZXT * trans(matAInvZXT)) % inv(A))\<close>, the search direction and
  \<^verbatim>\<open>sufficientDecrease = c * dot(gradient, searchDirection)\<close> with \<open>c = 1e-4\<close>.
\<close>

definition newton_direction ::
  "'r ext \<Rightarrow> mat \<Rightarrow> mat \<Rightarrow> nat \<Rightarrow> vec \<Rightarrow> fault + (mat \<times> vec \<times> vec \<times> real)" where
  "newton_direction E codesXT codesZT nActiveAtoms dualVars =
     bindF (mat_add codesZT (diagmat dualVars)) (\<lambda>A.
     bindF (solve E A codesXT) (\<lambda>matAInvZXT.
     bindF (vec_zip (-) (sum_dim1 (mat_map (\<lambda>x. x * x) matAInvZXT)) (replicate nActiveAtoms 1))
       (\<lambda>g.
       let gradient = map uminus g in
       bindF (mat_mult matAInvZXT (trans_mat matAInvZXT)) (\<lambda>MMt.
       bindF (inv_mat E A) (\<lambda>Ainv.
       bindF (schur (scale (- 2) MMt) Ainv) (\<lambda>H.
         let hessian = mat_map uminus H in
         bindF (solve E hessian (as_col gradient)) (\<lambda>sd.
         bindF (of_col sd) (\<lambda>sd'.
           let searchDirection = map uminus sd' in
           bindF (dot gradient searchDirection) (\<lambda>d.
             Inr (matAInvZXT, gradient, searchDirection, (1 / 10000) * d))))))))))"

text \<open>
  Newton's method on the dual, \<^verbatim>\<open>for (size_t t = 1; !converged; ++t)\<close>: no bound either.
  It returns the dual variables once an iteration improves by less than \<open>NEWTON_TOL\<close>;
  \<open>None\<close> is a run that never does.
\<close>

partial_function (option) newton ::
  "'r ext \<Rightarrow> mat \<Rightarrow> mat \<Rightarrow> nat \<Rightarrow> vec \<Rightarrow> (fault + vec) option" where
  "newton E codesXT codesZT nActiveAtoms dualVars =
     (case newton_direction E codesXT codesZT nActiveAtoms dualVars of
        Inl e \<Rightarrow> Some (Inl e)
      | Inr (matAInvZXT, gradient, searchDirection, sufficientDecrease) \<Rightarrow>
         (case armijo E codesXT codesZT matAInvZXT dualVars searchDirection sufficientDecrease 1 of
            None \<Rightarrow> None
          | Some (Inl e) \<Rightarrow> Some (Inl e)
          | Some (Inr (searchDirection', improvement)) \<Rightarrow>
             (case vec_zip (+) dualVars searchDirection' of
                Inl e \<Rightarrow> Some (Inl e)
              | Inr dualVars' \<Rightarrow>
                  if improvement < NEWTON_TOL then Some (Inr dualVars')
                  else newton E codesXT codesZT nActiveAtoms dualVars')))"

text \<open>
  \<^verbatim>\<open>dictionaryEstimate.col(activeAtoms[i]) = dictionaryActiveEstimate.col(i)\<close> for
  \<open>i = 0, 1, ...\<close>
\<close>

fun copy_active :: "mat \<Rightarrow> nat list \<Rightarrow> nat \<Rightarrow> mat \<Rightarrow> fault + mat" where
  "copy_active dictionaryActiveEstimate [] i dictionaryEstimate = Inr dictionaryEstimate"
| "copy_active dictionaryActiveEstimate (a # as) i dictionaryEstimate =
     bindF (col dictionaryActiveEstimate i) (\<lambda>c.
     bindF (set_col dictionaryEstimate a c) (\<lambda>dictionaryEstimate'.
       copy_active dictionaryActiveEstimate as (i + 1) dictionaryEstimate'))"

text \<open>
  The new atom for each inactive index: three draws of \<^verbatim>\<open>math::RandInt(data.n_cols)\<close>,
  the sum of the three data columns, then the division by its norm.  With a zero sum
  the division is \<open>0 / 0\<close>: the source goes on with a column of NaN, which a real number
  cannot be, and the model stops there with \<open>NonFinite\<close>.
\<close>

fun reinit_atoms :: "'r ext \<Rightarrow> mat \<Rightarrow> mat \<Rightarrow> 'r \<Rightarrow> nat list \<Rightarrow> fault + (mat \<times> 'r)" where
  "reinit_atoms E data' dictionaryEstimate rng [] = Inr (dictionaryEstimate, rng)"
| "reinit_atoms E data' dictionaryEstimate rng (j # js) =
     (case RandInt E rng (n_cols data') of (k1, rng1) \<Rightarrow>
      case RandInt E rng1 (n_cols data') of (k2, rng2) \<Rightarrow>
      case RandInt E rng2 (n_cols data') of (k3, rng3) \<Rightarrow>
        bindF (col data' k1) (\<lambda>c1.
        bindF (col data' k2) (\<lambda>c2.
        bindF (col data' k3) (\<lambda>c3.
        bindF (vec_zip (+) c1 c2) (\<lambda>c12.
        bindF (vec_zip (+) c12 c3) (\<lambda>c123.
        bindF (set_col dictionaryEstimate j c123) (\<lambda>D1.
        bindF (col D1 j) (\<lambda>atom.
          if norm2 atom = 0 then Inl NonFinite
          else
            bindF (set_col D1 j (map (\<lambda>x. x / norm2 atom) atom)) (\<lambda>D2.
              reinit_atoms E data' D2 rng3 js)))))))))"

text \<open>
  The part before Newton's method: the partition, the code rows of the active atoms
  (through \<open>RemoveRows\<close> when an atom is inactive), \<open>codesXT\<close> and \<open>codesZT\<close>.  The
  vector \<^verbatim>\<open>atomReverseLookup\<close> is written and never read, and is left out.
\<close>

definition active_system ::
  "'r ext \<Rightarrow> sparse_coding \<Rightarrow> fault + (nat list \<times> nat list \<times> mat \<times> mat)" where
  "active_system E s =
     bindF (partition_atoms (codes s) [0..<atoms s] [] []) (\<lambda>(inactiveAtoms, activeAtoms).
     bindF (if inactiveAtoms = [] then Inr (codes s)
            else RemoveRows (fresh E) (codes s) inactiveAtoms) (\<lambda>matActiveZ.
     bindF (mat_mult matActiveZ (trans_mat (data s))) (\<lambda>codesXT.
     bindF (mat_mult matActiveZ (trans_mat matActiveZ)) (\<lambda>codesZT.
       Inr (inactiveAtoms, activeAtoms, codesXT, codesZT)))))"

text \<open>The part after it: the estimate of the whole dictionary.\<close>

definition dictionary_estimate ::
  "'r ext \<Rightarrow> sparse_coding \<Rightarrow> nat list \<Rightarrow> nat list \<Rightarrow> mat \<Rightarrow> mat \<Rightarrow> vec \<Rightarrow> 'r \<Rightarrow>
   fault + (mat \<times> 'r)" where
  "dictionary_estimate E s inactiveAtoms activeAtoms codesXT codesZT dualVars rng =
     bindF (mat_add codesZT (diagmat dualVars)) (\<lambda>A.
     bindF (solve E A codesXT) (\<lambda>S.
       if inactiveAtoms = [] then Inr (trans_mat S, rng)
       else
         (let dictionaryActiveEstimate = trans_mat S;
              dictionaryEstimate = zeros (n_rows (data s)) (atoms s)
          in bindF (copy_active dictionaryActiveEstimate activeAtoms 0 dictionaryEstimate)
               (\<lambda>D1. reinit_atoms E (data s) D1 rng inactiveAtoms))))"

definition OptimizeDictionary ::
  "'r ext \<Rightarrow> nat list \<Rightarrow> sparse_coding \<Rightarrow> 'r \<Rightarrow> (fault + (sparse_coding \<times> 'r)) option" where
  "OptimizeDictionary E adjacencies s rng =
     (case count_neighbors (atoms s) (n_cols (data s)) adjacencies of
        Inl e \<Rightarrow> Some (Inl e)
      | Inr neighborCounts \<Rightarrow>
         (case active_system E s of
            Inl e \<Rightarrow> Some (Inl e)
          | Inr (inactiveAtoms, activeAtoms, codesXT, codesZT) \<Rightarrow>
             (case newton E codesXT codesZT (length activeAtoms)
                     (replicate (length activeAtoms) 0) of
                None \<Rightarrow> None
              | Some (Inl e) \<Rightarrow> Some (Inl e)
              | Some (Inr dualVars) \<Rightarrow>
                 (case dictionary_estimate E s inactiveAtoms activeAtoms codesXT codesZT
                         dualVars rng of
                    Inl e \<Rightarrow> Some (Inl e)
                  | Inr (dictionaryEstimate, rng') \<Rightarrow>
                      Some (Inr (s\<lparr>dictionary := dictionaryEstimate\<rparr>, rng'))))))"

subsection \<open>Encode\<close>

text \<open>
  One pass through the body of the \<^verbatim>\<open>for\<close> loop up to the convergence test: the
  dictionary step, the objective that is logged, the coding step, the adjacencies
  recomputed from the codes, and the objective that the test uses.  Of the log
  messages only the evaluation of \<^verbatim>\<open>Objective()\<close> can raise and is kept.
\<close>

definition Encode_round ::
  "'r ext \<Rightarrow> nat list \<Rightarrow> sparse_coding \<Rightarrow> 'r \<Rightarrow>
   (fault + (sparse_coding \<times> 'r \<times> nat list \<times> real)) option" where
  "Encode_round E adjacencies s rng =
     (case OptimizeDictionary E adjacencies s rng of
        None \<Rightarrow> None
      | Some (Inl e) \<Rightarrow> Some (Inl e)
      | Some (Inr (s1, rng1)) \<Rightarrow>
          Some (bindF (Objective s1) (\<lambda>logged.
                bindF (OptimizeCode E s1) (\<lambda>s2.
                  let adjacencies' = find_nonzero (codes s2) in
                  bindF (Objective s2) (\<lambda>curObjVal.
                    Inr (s2, rng1, adjacencies', curObjVal))))))"

text \<open>
  \<^verbatim>\<open>for (size_t t = 1; t != maxIterations; ++t)\<close>.  The counter is a machine word; the
  guard is an inequality, and the measure of what is left is \<open>maxIterations - t\<close> in
  word arithmetic.
\<close>

function Encode_loop ::
  "'r ext \<Rightarrow> 'w::len word \<Rightarrow> 'w word \<Rightarrow> real \<Rightarrow> nat list \<Rightarrow> sparse_coding \<Rightarrow> 'r \<Rightarrow>
   (fault + (sparse_coding \<times> 'r)) option" where
  "Encode_loop E t maxIterations lastObjVal adjacencies s rng =
     (if t \<noteq> maxIterations then
        (case Encode_round E adjacencies s rng of
           None \<Rightarrow> None
         | Some (Inl e) \<Rightarrow> Some (Inl e)
         | Some (Inr (s', rng', adjacencies', curObjVal)) \<Rightarrow>
            (let improvement = lastObjVal - curObjVal in
             if improvement < OBJ_TOL then Some (Inr (s', rng'))
             else Encode_loop E (t + 1) maxIterations curObjVal adjacencies' s' rng'))
      else Some (Inr (s, rng)))"
  by pat_completeness auto
termination
proof (relation "measure (\<lambda>(E, t, maxIterations, lastObjVal, adjacencies, s, rng).
          unat (maxIterations - t))", goal_cases)
  case 1
  show ?case by simp
next
  case (2 E t maxIterations lastObjVal adjacencies s rng)
  have "maxIterations - t \<noteq> 0" using 2(1) by simp
  then have "unat (maxIterations - t - 1) < unat (maxIterations - t)" by (rule measure_unat)
  moreover have "maxIterations - t - 1 = maxIterations - (t + 1)" by (simp add: algebra_simps)
  ultimately have "unat (maxIterations - (t + 1)) < unat (maxIterations - t)" by (simp only:)
  then show ?case by simp
qed

declare Encode_loop.simps [simp del]

text \<open>
  The whole method: \<^verbatim>\<open>lastObjVal = DBL_MAX\<close>, the initial coding step, the adjacencies,
  the logged objective, then the loop with the counter at 1.
\<close>

definition Encode ::
  "'r ext \<Rightarrow> 'w::len word \<Rightarrow> sparse_coding \<Rightarrow> 'r \<Rightarrow> (fault + (sparse_coding \<times> 'r)) option" where
  "Encode E maxIterations s rng =
     (let lastObjVal = DBL_MAX in
      case OptimizeCode E s of
        Inl e \<Rightarrow> Some (Inl e)
      | Inr s0 \<Rightarrow>
         (let adjacencies = find_nonzero (codes s0) in
          case Objective s0 of
            Inl e \<Rightarrow> Some (Inl e)
          | Inr logged \<Rightarrow> Encode_loop E 1 maxIterations lastObjVal adjacencies s0 rng))"

text \<open>
  The loop as the specification words it, independently of the translation above: at
  most \<open>n\<close> rounds; a round is the dictionary step, run with the adjacency set at
  hand, with the objective reported after it, then the code step, after which the
  adjacency set is recomputed from the code matrix and the objective is computed; the
  loop is left when the previous objective minus that objective is below \<open>1e-2\<close>, and
  otherwise goes on with that objective as the previous one.
\<close>

fun rounds_spec ::
  "'r ext \<Rightarrow> nat \<Rightarrow> real \<Rightarrow> nat list \<Rightarrow> sparse_coding \<Rightarrow> 'r \<Rightarrow>
   (fault + (sparse_coding \<times> 'r)) option" where
  "rounds_spec E 0 previous adjacency s rng = Some (Inr (s, rng))"
| "rounds_spec E (Suc n) previous adjacency s rng =
     (case OptimizeDictionary E adjacency s rng of
        None \<Rightarrow> None
      | Some (Inl e) \<Rightarrow> Some (Inl e)
      | Some (Inr (afterDictionary, rng')) \<Rightarrow>
         (case Objective afterDictionary of
            Inl e \<Rightarrow> Some (Inl e)
          | Inr reported \<Rightarrow>
             (case OptimizeCode E afterDictionary of
                Inl e \<Rightarrow> Some (Inl e)
              | Inr afterCode \<Rightarrow>
                 (case Objective afterCode of
                    Inl e \<Rightarrow> Some (Inl e)
                  | Inr current \<Rightarrow>
                      if previous - current < 1 / 100 then Some (Inr (afterCode, rng'))
                      else rounds_spec E n current (find_nonzero (codes afterCode))
                             afterCode rng'))))"

text \<open>
  \<open>Encode\<close> as the specification words it, \<open>n\<close> being \<open>maxIterations\<close> as a number: an
  initial code step, whose adjacency set and reported objective come first, then at
  most \<open>n - 1\<close> rounds.  Before the first round the previous objective is the largest
  finite \<^verbatim>\<open>double\<close>.
\<close>

definition Encode_spec ::
  "'r ext \<Rightarrow> nat \<Rightarrow> sparse_coding \<Rightarrow> 'r \<Rightarrow> (fault + (sparse_coding \<times> 'r)) option" where
  "Encode_spec E n s rng =
     (case OptimizeCode E s of
        Inl e \<Rightarrow> Some (Inl e)
      | Inr s0 \<Rightarrow>
         (case Objective s0 of
            Inl e \<Rightarrow> Some (Inl e)
          | Inr logged \<Rightarrow> rounds_spec E (n - 1) DBL_MAX (find_nonzero (codes s0)) s0 rng))"

subsection \<open>A one-atom instance of the external routines\<close>

text \<open>
  For systems with a single atom everything outside this file has a closed form: the
  LASSO solution is a soft threshold, and a one-by-one system is solved by a division.
  The instance draws column 0 every time and has freshly allocated memory hold zeros.
\<close>

definition one_atom_lars :: "mat \<Rightarrow> real \<Rightarrow> real \<Rightarrow> mat \<Rightarrow> vec \<Rightarrow> vec \<Rightarrow> fault + vec" where
  "one_atom_lars matGram l1 l2 D x code =
     bindF (col D 0) (\<lambda>d.
     bindF (dot d x) (\<lambda>c.
       Inr [sgn c * max (\<bar>c\<bar> - l1) 0 / (rws matGram ! 0 ! 0 + l2)]))"

definition one_by_one_solve :: "mat \<Rightarrow> mat \<Rightarrow> fault + mat" where
  "one_by_one_solve A B =
     (if n_rows A = 1 \<and> n_cols A = 1 \<and> n_rows B = 1 \<and> rws A ! 0 ! 0 \<noteq> 0
      then Inr (scale (1 / rws A ! 0 ! 0) B) else Inl SolveFailed)"

definition one_by_one_inverse :: "mat \<Rightarrow> fault + mat" where
  "one_by_one_inverse A =
     (if n_rows A = 1 \<and> n_cols A = 1 \<and> rws A ! 0 ! 0 \<noteq> 0
      then Inr \<lparr>n_cols = 1, rws = [[1 / rws A ! 0 ! 0]]\<rparr> else Inl SolveFailed)"

definition one_atom_ext :: "unit ext" where
  "one_atom_ext = \<lparr>lars = one_atom_lars, solve = one_by_one_solve,
                    inv_mat = one_by_one_inverse, RandInt = (\<lambda>rng n. (0, rng)),
                    fresh = (\<lambda>i j. 0)\<rparr>"

text \<open>One signal, one feature, one atom: the data, the dictionary and the code are all 1.\<close>

definition unit_state :: "real \<Rightarrow> sparse_coding" where
  "unit_state l1 = \<lparr>atoms = 1, data = \<lparr>n_cols = 1, rws = [[1]]\<rparr>,
                     dictionary = \<lparr>n_cols = 1, rws = [[1]]\<rparr>,
                     codes = \<lparr>n_cols = 1, rws = [[1]]\<rparr>,
                     lambda1 = l1, lambda2 = 0\<rparr>"

abbreviation M1 :: mat where
  "M1 \<equiv> \<lparr>n_cols = Suc 0, rws = [[1]]\<rparr>"

abbreviation Mhalf :: mat where
  "Mhalf \<equiv> \<lparr>n_cols = Suc 0, rws = [[1 / 2]]\<rparr>"

text \<open>
  Two signals with two features, the first signal being zero, and two atoms of which
  only the first is used, by the second signal.
\<close>

definition zero_signal_state :: sparse_coding where
  "zero_signal_state = \<lparr>atoms = 2, data = \<lparr>n_cols = 2, rws = [[0, 1], [0, 0]]\<rparr>,
                          dictionary = \<lparr>n_cols = 2, rws = [[1, 0], [0, 1]]\<rparr>,
                          codes = \<lparr>n_cols = 2, rws = [[0, 1], [0, 0]]\<rparr>,
                          lambda1 = 1, lambda2 = 0\<rparr>"

abbreviation Z1 :: mat where
  "Z1 \<equiv> \<lparr>n_cols = 2, rws = [[0, 1]]\<rparr>"

abbreviation X12 :: mat where
  "X12 \<equiv> \<lparr>n_cols = 2, rws = [[1, 0]]\<rparr>"

text \<open>
  One signal, one feature, one atom again, with the atom at half its length and no
  code yet: the first code step gives the code 1, the dictionary step then doubles
  the atom, and the next code step gives the code \<open>3 / 4\<close>.
\<close>

definition half_dictionary_state :: sparse_coding where
  "half_dictionary_state = \<lparr>atoms = 1, data = \<lparr>n_cols = 1, rws = [[1]]\<rparr>,
                              dictionary = \<lparr>n_cols = 1, rws = [[1 / 2]]\<rparr>,
                              codes = \<lparr>n_cols = 1, rws = [[0]]\<rparr>,
                              lambda1 = 1 / 4, lambda2 = 0\<rparr>"

text \<open>
  Two signals with two features, two atoms, a negative code entry and a residual that
  is not zero.
\<close>

definition mixed_sign_state :: "real \<Rightarrow> sparse_coding" where
  "mixed_sign_state l2 = \<lparr>atoms = 2, data = \<lparr>n_cols = 2, rws = [[1, 2], [3, 4]]\<rparr>,
                           dictionary = \<lparr>n_cols = 2, rws = [[1, 1], [0, 1]]\<rparr>,
                           codes = \<lparr>n_cols = 2, rws = [[1, - 1], [0, 2]]\<rparr>,
                           lambda1 = 3, lambda2 = l2\<rparr>"



section \<open>Properties\<close>

subsection \<open>RemoveRows keeps exactly the unlisted rows\<close>

lemma nths_kept_from:
  "sorted_wrt (<) rs \<Longrightarrow> \<forall>r\<in>set rs. s \<le> r \<and> r < length xs \<Longrightarrow>
   nths (drop s xs) {j. j + s \<notin> set rs} = kept_from xs s rs"
proof (induction rs arbitrary: s)
  case Nil
  then show ?case by (simp add: nths_all)
next
  case (Cons r rs)
  have sr: "s \<le> r" and rl: "r < length xs" using Cons.prems by auto
  have gt: "\<forall>r'\<in>set rs. r < r'" using Cons.prems(1) by simp
  let ?A = "{j. j + s \<notin> set (r # rs)}"
  have split: "drop s xs = take (r - s) (drop s xs) @ (xs ! r # drop (r + 1) xs)"
  proof -
    have "drop s xs = take (r - s) (drop s xs) @ drop (r - s) (drop s xs)"
      by (rule append_take_drop_id[symmetric])
    also have "drop (r - s) (drop s xs) = drop r xs" using sr by simp
    also have "drop r xs = xs ! r # drop (r + 1) xs" using rl by (simp add: Cons_nth_drop_Suc)
    finally show ?thesis .
  qed
  have len: "length (take (r - s) (drop s xs)) = r - s" using sr rl by simp
  have p1: "nths (take (r - s) (drop s xs)) ?A = take (r - s) (drop s xs)"
    apply (rule nths_all) using gt sr len by auto
  have p2: "nths (xs ! r # drop (r + 1) xs) {j. j + (r - s) \<in> ?A}
       = nths (drop (r + 1) xs) {j. j + (r + 1) \<notin> set rs}"
  proof -
    have "{j. Suc j + (r - s) \<in> ?A} = {j. j + (r + 1) \<notin> set rs}"
      using sr gt by auto
    moreover have "0 + (r - s) \<notin> ?A" using sr by simp
    ultimately show ?thesis by (simp add: nths_Cons)
  qed
  have ih: "nths (drop (r + 1) xs) {j. j + (r + 1) \<notin> set rs} = kept_from xs (r + 1) rs"
    apply (rule Cons.IH) using Cons.prems gt by auto
  have "nths (drop s xs) ?A = nths (take (r - s) (drop s xs) @ (xs ! r # drop (r + 1) xs)) ?A"
    using split by simp
  also have "\<dots> = take (r - s) (drop s xs) @ kept_from xs (r + 1) rs"
    by (simp only: nths_append len p1 p2 ih)
  finally show ?case by simp
qed

lemma strict_sorted_nth_gap:
  "sorted_wrt (<) (idx :: nat list) \<Longrightarrow> k < length idx \<Longrightarrow> j \<le> k \<Longrightarrow> idx ! j + (k - j) \<le> idx ! k"
proof (induction k)
  case 0
  then show ?case by simp
next
  case (Suc k)
  show ?case
  proof (cases "j = Suc k")
    case True
    then show ?thesis by simp
  next
    case False
    then have jk: "j \<le> k" using Suc.prems by simp
    have "idx ! j + (k - j) \<le> idx ! k" using Suc.IH Suc.prems jk by simp
    moreover have "idx ! k < idx ! Suc k"
      using Suc.prems by (simp add: sorted_wrt_nth_less)
    ultimately show ?thesis using jk by simp
  qed
qed

lemma strict_sorted_nth_ge:
  "sorted_wrt (<) (idx :: nat list) \<Longrightarrow> k < length idx \<Longrightarrow> k \<le> idx ! k"
  using strict_sorted_nth_gap [of idx k 0] by simp

lemma strict_sorted_nth_room:
  assumes "sorted_wrt (<) (idx :: nat list)" "\<forall>i\<in>set idx. i < n" "k < length idx"
  shows "idx ! k + (length idx - k) \<le> n"
proof -
  let ?m = "length idx"
  have "idx ! k + (?m - 1 - k) \<le> idx ! (?m - 1)"
    using strict_sorted_nth_gap [of idx "?m - 1" k] assms by simp
  moreover have "idx ! (?m - 1) < n" using assms by simp
  ultimately show ?thesis using assms(3) by simp
qed

lemma RemoveRows_loop_kept:
  assumes srt: "sorted_wrt (<) idx" and bnd: "\<forall>i\<in>set idx. i < n_rows X" and wf: "wf_mat X"
  shows "k < length idx \<Longrightarrow> curRow = idx ! k - k \<Longrightarrow>
         n_rows modX = n_rows X - length idx \<Longrightarrow> n_cols modX = n_cols X \<Longrightarrow>
         \<exists>modX'. RemoveRows_loop X idx curRow k modX
             = Inr (idx ! (length idx - 1) - (length idx - 1), length idx - 1, modX')
           \<and> n_rows modX' = n_rows X - length idx \<and> n_cols modX' = n_cols X
           \<and> take (idx ! (length idx - 1) - (length idx - 1)) (rws modX')
               @ drop (idx ! (length idx - 1) + 1) (rws X)
             = take curRow (rws modX) @ kept_from (rws X) (idx ! k + 1) (drop (k + 1) idx)"
proof (induction "length idx - 1 - k" arbitrary: k curRow modX)
  case 0
  then have k: "k = length idx - 1" by simp
  have "RemoveRows_loop X idx curRow k modX = Inr (curRow, k, modX)"
    by (subst RemoveRows_loop.simps) (simp add: k)
  then show ?case using 0 k by simp
next
  case (Suc d)
  let ?m = "length idx"
  let ?xs = "rws X"
  have k1: "k + 1 < ?m" using Suc.hyps(2) by simp
  have kl: "k < ?m - 1" using k1 by simp
  have lt: "idx ! k < idx ! (k + 1)" using srt k1 by (simp add: sorted_wrt_nth_less)
  define height where "height = idx ! (k + 1) - idx ! k - 1"
  have gek: "k \<le> idx ! k" using strict_sorted_nth_ge srt Suc.prems(1) by simp
  have room: "idx ! (k + 1) + (?m - (k + 1)) \<le> n_rows X"
    using strict_sorted_nth_room [OF srt bnd k1] .
  have cur': "curRow + height = idx ! (k + 1) - (k + 1)"
    using Suc.prems(2) gek lt by (simp add: height_def)
  have dropk: "drop (k + 1) idx = idx ! (k + 1) # drop (k + 1 + 1) idx"
    using k1 by (simp add: Cons_nth_drop_Suc)
  have kf: "kept_from ?xs (idx ! k + 1) (drop (k + 1) idx)
      = take height (drop (idx ! k + 1) ?xs) @ kept_from ?xs (idx ! (k + 1) + 1) (drop (k + 1 + 1) idx)"
    by (subst dropk) (simp add: height_def)
  show ?case
  proof (cases "height > 0")
    case False
    then have h0: "height = 0" by simp
    have step: "RemoveRows_loop X idx curRow k modX = RemoveRows_loop X idx curRow (k + 1) modX"
      using kl lt h0 by (subst RemoveRows_loop.simps) (simp add: height_def)
    have "d = ?m - 1 - (k + 1)" using Suc.hyps(2) by simp
    from Suc.hyps(1) [OF this k1 _ Suc.prems(3) Suc.prems(4), of curRow]
    obtain modX' where r: "RemoveRows_loop X idx curRow (k + 1) modX
             = Inr (idx ! (?m - 1) - (?m - 1), ?m - 1, modX')"
           "n_rows modX' = n_rows X - ?m" "n_cols modX' = n_cols X"
           "take (idx ! (?m - 1) - (?m - 1)) (rws modX') @ drop (idx ! (?m - 1) + 1) ?xs
             = take curRow (rws modX) @ kept_from ?xs (idx ! (k + 1) + 1) (drop (k + 1 + 1) idx)"
      using cur' h0 by auto
    show ?thesis using r step kf h0 by simp
  next
    case True
    define blk where "blk = take height (drop (idx ! k + 1) ?xs)"
    have sp: "span_rows X (idx ! k + 1) (idx ! (k + 1) - 1) = Inr blk"
      using True room k1 by (auto simp: span_rows_def blk_def height_def n_rows_def)
    have lblk: "length blk = height"
      using room k1 True by (simp add: blk_def height_def n_rows_def)
    have wblk: "list_all (\<lambda>r. length r = n_cols modX) blk"
      using wf Suc.prems(4) unfolding wf_mat_def blk_def list_all_iff
      by (auto dest!: in_set_takeD in_set_dropD)
    define modX1 where "modX1 = modX\<lparr>rws := take curRow (rws modX) @ blk @ drop (curRow + height - 1 + 1) (rws modX)\<rparr>"
    have fit: "curRow + height \<le> n_rows modX"
      using cur' room k1 Suc.prems(3) by simp
    have ss: "set_span_rows modX curRow (curRow + height - 1) blk = Inr modX1"
    proof -
      have "curRow \<le> curRow + height - 1 \<and> curRow + height - 1 < n_rows modX"
        using True fit by arith
      moreover have "length blk = curRow + height - 1 + 1 - curRow" using True lblk by arith
      ultimately show ?thesis using wblk by (simp add: set_span_rows_def modX1_def)
    qed
    have step: "RemoveRows_loop X idx curRow k modX = RemoveRows_loop X idx (curRow + height) (k + 1) modX1"
      using kl lt True sp ss
      by (subst RemoveRows_loop.simps) (simp add: height_def Let_def)
    have nr1: "n_rows modX1 = n_rows X - ?m"
      using fit True lblk Suc.prems(3) by (simp add: modX1_def n_rows_def)
    have nc1: "n_cols modX1 = n_cols X" using Suc.prems(4) by (simp add: modX1_def)
    have tk1: "take (curRow + height) (rws modX1) = take curRow (rws modX) @ blk"
      using fit lblk by (simp add: modX1_def n_rows_def)
    have "d = ?m - 1 - (k + 1)" using Suc.hyps(2) by simp
    from Suc.hyps(1) [OF this k1 cur' nr1 nc1]
    obtain modX' where r: "RemoveRows_loop X idx (curRow + height) (k + 1) modX1
             = Inr (idx ! (?m - 1) - (?m - 1), ?m - 1, modX')"
           "n_rows modX' = n_rows X - ?m" "n_cols modX' = n_cols X"
           "take (idx ! (?m - 1) - (?m - 1)) (rws modX') @ drop (idx ! (?m - 1) + 1) ?xs
             = take (curRow + height) (rws modX1) @ kept_from ?xs (idx ! (k + 1) + 1) (drop (k + 1 + 1) idx)"
      by auto
    show ?thesis using r step kf tk1 by (simp add: blk_def)
  qed
qed

text \<open>
  Claim C5.  For a matrix \<open>X\<close> with \<open>r\<close> rows and a strictly ascending list of
  \<open>m\<close> row indices, all below \<open>r\<close>, \<open>RemoveRows\<close> returns a matrix with
  \<open>r - m\<close> rows and the columns of \<open>X\<close>, whose rows are the rows of \<open>X\<close> at
  the unlisted positions, in their order; with no index it returns \<open>X\<close> itself.  The
  result does not depend on what the freshly sized output held.
\<close>

theorem RemoveRows_keeps_unlisted_rows:
  assumes wf: "wf_mat X" and srt: "sorted_wrt (<) idx" and bnd: "\<forall>i\<in>set idx. i < n_rows X"
  shows "\<exists>Y. RemoveRows uninit X idx = Inr Y
           \<and> n_rows Y = n_rows X - length idx
           \<and> n_cols Y = n_cols X
           \<and> rws Y = nths (rws X) {i. i \<notin> set idx}
           \<and> (idx = [] \<longrightarrow> Y = X)"
proof (cases "idx = []")
  case True
  then show ?thesis by (simp add: RemoveRows_def nths_all)
next
  case False
  let ?m = "length idx"
  let ?n = "n_rows X"
  let ?xs = "rws X"
  let ?last = "idx ! (?m - 1)"
  let ?modX = "set_size uninit (?n - ?m) (n_cols X)"
  have m0: "0 < ?m" using False by simp
  have room0: "idx ! 0 + ?m \<le> ?n" using strict_sorted_nth_room [OF srt bnd m0] by simp
  have mn: "?m \<le> ?n" using room0 by simp
  have lastn: "?last < ?n" using bnd m0 by simp
  have lastm: "?m - 1 \<le> ?last" using strict_sorted_nth_ge [OF srt, of "?m - 1"] m0 by simp
  have nr0: "n_rows ?modX = ?n - ?m" by (simp add: set_size_def n_rows_def)
  have nc0: "n_cols ?modX = n_cols X" by (simp add: set_size_def)
  have kept: "nths ?xs {i. i \<notin> set idx} = kept_from ?xs 0 idx"
    using nths_kept_from [OF srt, of 0 ?xs] bnd by (simp add: n_rows_def)
  have idx_eq: "idx = idx ! 0 # drop (0 + 1) idx"
    using m0 by (cases idx) simp_all
  have kept0: "kept_from ?xs 0 idx = take (idx ! 0) ?xs @ kept_from ?xs (idx ! 0 + 1) (drop (0 + 1) idx)"
    by (subst idx_eq) simp
  define first where "first = RemoveRows_first X idx ?modX"
  have "\<exists>modX1. first = Inr (idx ! 0 - 0, modX1) \<and> n_rows modX1 = ?n - ?m \<and> n_cols modX1 = n_cols X
          \<and> take (idx ! 0) (rws modX1) = take (idx ! 0) ?xs"
  proof (cases "idx ! 0 > 0")
    case False
    then show ?thesis using nr0 nc0 by (simp add: first_def RemoveRows_first_def)
  next
    case True
    define blk where "blk = take (idx ! 0) ?xs"
    have sp: "span_rows X 0 (idx ! 0 - 1) = Inr blk"
      using True room0 m0 by (simp add: span_rows_def blk_def)
    have lblk: "length blk = idx ! 0" using room0 by (simp add: blk_def n_rows_def)
    have wblk: "list_all (\<lambda>r. length r = n_cols ?modX) blk"
      using wf nc0 unfolding wf_mat_def blk_def list_all_iff
      by (auto dest!: in_set_takeD)
    have b: "0 \<le> 0 + idx ! 0 - 1 \<and> 0 + idx ! 0 - 1 < n_rows ?modX"
      using True room0 m0 nr0 by simp
    have l: "length blk = 0 + idx ! 0 - 1 + 1 - 0" using True lblk by simp
    have ss: "set_span_rows ?modX 0 (0 + idx ! 0 - 1) blk
        = Inr (?modX\<lparr>rws := take 0 (rws ?modX) @ blk @ drop (0 + idx ! 0 - 1 + 1) (rws ?modX)\<rparr>)"
      unfolding set_span_rows_def using b l wblk by simp
    show ?thesis
      using True sp ss lblk nr0 nc0 room0 m0
      by (simp add: first_def RemoveRows_first_def Let_def blk_def n_rows_def)
  qed
  then obtain modX1 where f: "first = Inr (idx ! 0 - 0, modX1)"
      and nr1: "n_rows modX1 = ?n - ?m" and nc1: "n_cols modX1 = n_cols X"
      and tk1: "take (idx ! 0) (rws modX1) = take (idx ! 0) ?xs" by blast
  from RemoveRows_loop_kept [OF srt bnd wf m0 refl nr1 nc1]
  obtain modX2 where lp: "RemoveRows_loop X idx (idx ! 0 - 0) 0 modX1 = Inr (?last - (?m - 1), ?m - 1, modX2)"
      and nr2: "n_rows modX2 = ?n - ?m" and nc2: "n_cols modX2 = n_cols X"
      and tk2: "take (?last - (?m - 1)) (rws modX2) @ drop (?last + 1) ?xs
             = take (idx ! 0 - 0) (rws modX1) @ kept_from ?xs (idx ! 0 + 1) (drop (0 + 1) idx)"
    by blast
  have all: "take (?last - (?m - 1)) (rws modX2) @ drop (?last + 1) ?xs = nths ?xs {i. i \<notin> set idx}"
    using tk2 tk1 kept kept0 by simp
  define fin where "fin = RemoveRows_last X idx (?n - ?m) (?last - (?m - 1)) (?m - 1) modX2"
  have R: "RemoveRows uninit X idx = fin"
    using False mn f lp
    by (simp add: RemoveRows_def Let_def first_def [symmetric] fin_def)
  have "\<exists>Y. fin = Inr Y \<and> n_rows Y = ?n - ?m \<and> n_cols Y = n_cols X
          \<and> rws Y = nths ?xs {i. i \<notin> set idx}"
  proof (cases "?last < ?n - 1")
    case False
    then have le: "?last = ?n - 1" using lastn by simp
    have "?last - (?m - 1) = ?n - ?m" using le m0 mn by simp
    then have "take (?last - (?m - 1)) (rws modX2) = rws modX2"
      using nr2 by (simp add: n_rows_def)
    moreover have "drop (?last + 1) ?xs = []" using le lastn by (simp add: n_rows_def)
    ultimately have "rws modX2 = nths ?xs {i. i \<notin> set idx}" using all by simp
    then show ?thesis using False nr2 nc2 by (simp add: fin_def RemoveRows_last_def)
  next
    case True
    define blk where "blk = drop (?last + 1) ?xs"
    have sp: "span_rows X (?last + 1) (?n - 1) = Inr blk"
      using True by (simp add: span_rows_def blk_def n_rows_def)
    have lblk: "length blk = ?n - (?last + 1)" by (simp add: blk_def n_rows_def)
    have wblk: "list_all (\<lambda>r. length r = n_cols modX2) blk"
      using wf nc2 unfolding wf_mat_def blk_def list_all_iff
      by (auto dest!: in_set_dropD)
    let ?c = "?last - (?m - 1)"
    have mlt: "?m < ?n" using True lastm m0 by arith
    have sucn: "?n - ?m - 1 + 1 = ?n - ?m" using mlt by arith
    have b: "?c \<le> ?n - ?m - 1 \<and> ?n - ?m - 1 < n_rows modX2"
      using True lastm m0 mn nr2 by arith
    have l: "length blk = ?n - ?m - 1 + 1 - ?c"
      using True lastm m0 mn lblk by arith
    have dr: "drop (?n - ?m - 1 + 1) (rws modX2) = []"
      using nr2 by (simp only: sucn) (simp add: n_rows_def)
    have ss: "set_span_rows modX2 ?c (?n - ?m - 1) blk
        = Inr (modX2\<lparr>rws := take ?c (rws modX2) @ blk\<rparr>)"
      unfolding set_span_rows_def using b l wblk dr by simp
    have lenall: "length (take ?c (rws modX2) @ blk) = ?n - ?m"
    proof -
      have "?c \<le> length (rws modX2)" using b nr2 by (simp add: n_rows_def)
      then have "length (take ?c (rws modX2)) = ?c" by simp
      moreover have "length blk = ?n - ?m - ?c" using l sucn by simp
      moreover have "?c \<le> ?n - ?m" using b by arith
      ultimately have "length (take ?c (rws modX2)) + length blk = ?n - ?m" by arith
      then show ?thesis by (simp only: length_append)
    qed
    show ?thesis
      using True sp ss all nc2 lenall by (simp add: fin_def RemoveRows_last_def blk_def n_rows_def)
  qed
  then show ?thesis using R False by auto
qed

theorem RemoveRows_keeps_unlisted_rows_witness:
  "wf_mat \<lparr>n_cols = 2, rws = [[1, 2], [3, 4], [5, 6], [7, 8], [9, 10]]\<rparr>
   \<and> sorted_wrt (<) [1, 3 :: nat]
   \<and> 1 < n_rows \<lparr>n_cols = 2, rws = [[1, 2], [3, 4], [5, 6], [7, 8], [9, 10]]\<rparr>
   \<and> 3 < n_rows \<lparr>n_cols = 2, rws = [[1, 2], [3, 4], [5, 6], [7, 8], [9, 10]]\<rparr>
   \<and> RemoveRows (\<lambda>i j. 0) \<lparr>n_cols = 2, rws = [[1, 2], [3, 4], [5, 6], [7, 8], [9, 10]]\<rparr> [1, 3]
       = Inr \<lparr>n_cols = 2, rws = [[1, 2], [5, 6], [9, 10]]\<rparr>"
proof -
  let ?X = "\<lparr>n_cols = 2, rws = [[1, 2], [3, 4], [5, 6], [7, 8], [9, 10 :: real]]\<rparr>"
  have h1: "wf_mat ?X" by (simp add: wf_mat_def)
  have h2: "sorted_wrt (<) [1, 3 :: nat]" by simp
  have h3: "\<forall>i\<in>set [1, 3]. i < n_rows ?X" by (simp add: n_rows_def)
  from RemoveRows_keeps_unlisted_rows [OF h1 h2 h3, of "\<lambda>i j. 0"]
  obtain Y where Y: "RemoveRows (\<lambda>i j. 0) ?X [1, 3] = Inr Y" "n_cols Y = n_cols ?X"
      "rws Y = nths (rws ?X) {i. i \<notin> set [1, 3]}" by blast
  have "rws Y = [[1, 2], [5, 6], [9, 10]]"
    using Y(3) by (simp add: nths_Cons)
  then have "Y = \<lparr>n_cols = 2, rws = [[1, 2], [5, 6], [9, 10]]\<rparr>"
    using Y(2) by (cases Y) simp
  then show ?thesis using h1 h2 h3 Y(1) by simp
qed

subsection \<open>Auxiliary facts\<close>

lemma bindF_Inr_iff: "(bindF m f = Inr y) = (\<exists>x. m = Inr x \<and> f x = Inr y)"
  by (cases m) simp_all

lemma upt_0_2: "[0..<2] = [0, Suc 0]"
  by (simp add: numeral_2_eq_2)

lemma replicate_2: "replicate 2 x = [x, x]"
  by (simp add: numeral_2_eq_2)

subsection \<open>The one-atom instance, evaluated\<close>

lemmas mat_defs = n_rows_def zeros_def empty_mat_def col_def row_def set_col_def trans_mat_def
  dot_def mat_mult_def mat_zip_def mat_add_def mat_sub_def schur_def mat_map_def scale_def
  vec_zip_def diagmat_def as_col_def sum_dim1_def sum_all_def trace_def norm2_def norm_fro_def
  find_nonzero_def of_col_def

lemmas one_atom_defs = one_atom_ext_def one_atom_lars_def one_by_one_solve_def
  one_by_one_inverse_def unit_state_def

lemma unit_fields:
  "atoms (unit_state l1) = Suc 0" "data (unit_state l1) = M1" "dictionary (unit_state l1) = M1"
  "codes (unit_state l1) = M1" "lambda1 (unit_state l1) = l1" "lambda2 (unit_state l1) = 0"
  "unit_state l1\<lparr>dictionary := M1\<rparr> = unit_state l1"
  by (simp_all add: unit_state_def)

lemma unit_count: "count_neighbors (Suc 0) (Suc 0) [0] = Inr [0]"
  by (simp add: count_neighbors_def)

lemma unit_active: "active_system one_atom_ext (unit_state l1) = Inr ([], [0], M1, M1)"
  by (simp add: active_system_def mat_defs one_atom_defs)

lemma unit_direction:
  "newton_direction one_atom_ext M1 M1 (Suc 0) [0] = Inr (M1, [0], [0], 0)"
  by (simp add: newton_direction_def mat_defs one_atom_defs Let_def)

lemma unit_values:
  "armijo_values one_atom_ext M1 M1 M1 [0] [0] 1 = Inr (1, 1)"
  by (simp add: armijo_values_def mat_defs one_atom_defs)

lemma unit_armijo:
  "armijo one_atom_ext M1 M1 M1 [0] [0] 0 1 = Some (Inr ([0], 0))"
  by (subst armijo.simps) (simp add: unit_values)

lemma unit_newton:
  "newton one_atom_ext M1 M1 (Suc 0) [0] = Some (Inr [0])"
  by (subst newton.simps) (simp add: unit_direction unit_armijo vec_zip_def NEWTON_TOL_def)

lemma unit_estimate:
  "dictionary_estimate one_atom_ext (unit_state l1) [] [0] M1 M1 [0] () = Inr (M1, ())"
  by (simp add: dictionary_estimate_def mat_defs one_atom_defs)

lemma unit_OptimizeDictionary:
  "OptimizeDictionary one_atom_ext [0] (unit_state l1) () = Some (Inr (unit_state l1, ()))"
  by (simp add: OptimizeDictionary_def unit_fields unit_count unit_active unit_newton
      unit_estimate)

lemma unit_OptimizeCode_zero:
  "OptimizeCode one_atom_ext (unit_state 0) = Inr (unit_state 0)"
  by (simp add: OptimizeCode_def mat_defs one_atom_defs)

lemma unit_OptimizeCode_half:
  "OptimizeCode one_atom_ext (unit_state (1 / 2)) = Inr (unit_state (1 / 2)\<lparr>codes := Mhalf\<rparr>)"
  by (simp add: OptimizeCode_def mat_defs one_atom_defs)

lemma unit_Objective: "Objective (unit_state l1) = Inr l1"
  by (simp add: Objective_def mat_defs unit_state_def)

lemma unit_Objective_half: "Objective (unit_state (1 / 2)\<lparr>codes := Mhalf\<rparr>) = Inr (3 / 8)"
  by (simp add: Objective_def mat_defs unit_state_def power2_eq_square)

lemma unit_find: "find_nonzero (codes (unit_state l1)) = [0]"
  by (simp add: mat_defs unit_state_def)

lemma unit_round_zero:
  "Encode_round one_atom_ext [0] (unit_state 0) () = Some (Inr (unit_state 0, (), [0], 0))"
  by (simp add: Encode_round_def unit_OptimizeDictionary unit_Objective unit_OptimizeCode_zero
      unit_find)

lemma unit_round_half:
  "Encode_round one_atom_ext [0] (unit_state (1 / 2)) ()
     = Some (Inr (unit_state (1 / 2)\<lparr>codes := Mhalf\<rparr>, (), [0], 3 / 8))"
  by (simp add: Encode_round_def unit_OptimizeDictionary unit_Objective unit_OptimizeCode_half
      unit_Objective_half)
     (simp add: mat_defs)

lemma DBL_MAX_large: "\<not> DBL_MAX - 0 < OBJ_TOL"
  by (simp add: DBL_MAX_def OBJ_TOL_def)

text \<open>
  The instance started from a dictionary of \<open>1 / 2\<close>: the first code step gives the
  code 1, the dictionary step the dictionary 1, and the next code step the code
  \<open>3 / 4\<close>.
\<close>

lemma one_atom_active:
  "atoms s = Suc 0 \<Longrightarrow> data s = M1 \<Longrightarrow> codes s = M1 \<Longrightarrow>
   active_system one_atom_ext s = Inr ([], [0], M1, M1)"
  by (simp add: active_system_def mat_defs one_atom_defs)

lemma one_atom_estimate:
  "dictionary_estimate one_atom_ext s [] [0] M1 M1 [0] rng = Inr (M1, rng)"
  by (simp add: dictionary_estimate_def mat_defs one_atom_defs)

lemma one_atom_OptimizeDictionary:
  "atoms s = Suc 0 \<Longrightarrow> data s = M1 \<Longrightarrow> codes s = M1 \<Longrightarrow>
   OptimizeDictionary one_atom_ext [0] s rng = Some (Inr (s\<lparr>dictionary := M1\<rparr>, rng))"
  by (simp add: OptimizeDictionary_def unit_count one_atom_active unit_newton one_atom_estimate)



lemma hd_OptimizeDictionary:
  "OptimizeDictionary one_atom_ext [0] (half_dictionary_state\<lparr>codes := M1\<rparr>) ()
     = Some (Inr (half_dictionary_state\<lparr>codes := M1, dictionary := M1\<rparr>, ()))"
  by (simp add: one_atom_OptimizeDictionary half_dictionary_state_def)





subsection \<open>The round loop of Encode\<close>

text \<open>
  One pass of the loop body, written out: the dictionary step, the objective that is
  reported, the code step, the adjacencies found in the new codes, and the objective
  that the exit test reads.
\<close>

lemma Encode_round_cases:
  "Encode_round E adjacencies s rng =
     (case OptimizeDictionary E adjacencies s rng of
        None \<Rightarrow> None
      | Some (Inl e) \<Rightarrow> Some (Inl e)
      | Some (Inr (s1, rng1)) \<Rightarrow>
         (case Objective s1 of
            Inl e \<Rightarrow> Some (Inl e)
          | Inr logged \<Rightarrow>
             (case OptimizeCode E s1 of
                Inl e \<Rightarrow> Some (Inl e)
              | Inr s2 \<Rightarrow>
                 (case Objective s2 of
                    Inl e \<Rightarrow> Some (Inl e)
                  | Inr curObjVal \<Rightarrow>
                      Some (Inr (s2, rng1, find_nonzero (codes s2), curObjVal))))))"
  by (simp add: Encode_round_def Let_def split: option.splits sum.splits prod.splits)

text \<open>
  The loop with its word counter and its inequality guard runs as many rounds as the
  distance from the counter to \<open>maxIterations\<close> in word arithmetic allows.
\<close>

lemma Encode_loop_rounds:
  "n = unat (maxIterations - t) \<Longrightarrow>
   Encode_loop E t maxIterations lastObjVal adjacencies s rng
     = rounds_spec E n lastObjVal adjacencies s rng"
proof (induction n arbitrary: t lastObjVal adjacencies s rng)
  case 0
  then have "maxIterations - t = 0" by (simp add: unat_eq_0)
  then have "t = maxIterations" by simp
  then show ?case by (subst Encode_loop.simps) simp
next
  case (Suc n)
  have ne: "maxIterations - t \<noteq> 0" using Suc.prems by auto
  then have tne: "t \<noteq> maxIterations" by auto
  have "unat (maxIterations - t - 1) = unat (maxIterations - t) - 1"
    using ne by (simp add: unat_minus_one)
  moreover have "maxIterations - t - 1 = maxIterations - (t + 1)" by (simp add: algebra_simps)
  ultimately have n: "n = unat (maxIterations - (t + 1))" using Suc.prems by simp
  show ?case
    using tne Suc.IH [OF n]
    by (subst Encode_loop.simps)
       (simp add: Encode_round_cases OBJ_TOL_def Let_def
          split: option.splits sum.splits prod.splits)
qed



text \<open>
  Claim C4.  In any round, when the objective computed after the code step exceeds the
  previous objective, the loop returns the state at the end of that round: the
  improvement is negative, hence below the tolerance, and the increased value never
  becomes the baseline of a further round.
\<close>

theorem Encode_stops_on_increase:
  assumes "t \<noteq> maxIterations"
    and "Encode_round E adjacencies s rng = Some (Inr (s', rng', adjacencies', curObjVal))"
    and "lastObjVal < curObjVal"
  shows "Encode_loop E t maxIterations lastObjVal adjacencies s rng = Some (Inr (s', rng'))"
  using assms by (subst Encode_loop.simps) (simp add: OBJ_TOL_def)

theorem Encode_stops_on_increase_witness:
  "(1 :: 64 word) \<noteq> 5
   \<and> Encode_round one_atom_ext [0] (unit_state (1 / 2)) ()
       = Some (Inr (unit_state (1 / 2)\<lparr>codes := \<lparr>n_cols = 1, rws = [[1 / 2]]\<rparr>\<rparr>, (), [0], 3 / 8))
   \<and> (0 :: real) < 3 / 8
   \<and> Encode_loop one_atom_ext (1 :: 64 word) 5 0 [0] (unit_state (1 / 2)) ()
       = Some (Inr (unit_state (1 / 2)\<lparr>codes := \<lparr>n_cols = 1, rws = [[1 / 2]]\<rparr>\<rparr>, ()))"
proof -
  have h1: "(1 :: 64 word) \<noteq> 5" by simp
  have h2: "Encode_round one_atom_ext [0] (unit_state (1 / 2)) ()
       = Some (Inr (unit_state (1 / 2)\<lparr>codes := \<lparr>n_cols = 1, rws = [[1 / 2]]\<rparr>\<rparr>, (), [0], 3 / 8))"
    using unit_round_half by simp
  have h3: "(0 :: real) < 3 / 8" by simp
  show ?thesis using Encode_stops_on_increase [OF h1 h2 h3] h1 h2 h3 by simp
qed

text \<open>
  With \<open>maxIterations = 0\<close> the counter, which starts at 1, meets the guard's value
  only after wrapping around: \<open>Encode\<close> then behaves as with a budget of \<open>2 ^ w\<close>
  iterations, \<open>w\<close> being the width of \<^verbatim>\<open>size_t\<close>.
\<close>

lemma Encode_zero_budget_wraps:
  "Encode E (0 :: 'w::len word) s rng = Encode_spec E (2 ^ LENGTH('w)) s rng"
proof -
  have "unat (0 - 1 :: 'w word) = 2 ^ LENGTH('w) - 1"
    by (simp add: unsigned_minus_1_eq_mask mask_eq_exp_minus_1)
  moreover have "Encode_loop E 1 (0 :: 'w word) lastObjVal adjacencies s' rng
      = rounds_spec E (unat (0 - 1 :: 'w word)) lastObjVal adjacencies s' rng"
    for lastObjVal adjacencies s'
    by (rule Encode_loop_rounds) simp
  ultimately show ?thesis
    unfolding Encode_def Encode_spec_def Let_def by (simp split: sum.splits)
qed

lemma counter_not_wrapped:
  assumes "n < 2 ^ LENGTH('w) - 1"
  shows "(1 + of_nat n :: 'w::len word) \<noteq> 0"
proof -
  have "Suc n < 2 ^ LENGTH('w)" using assms by simp
  then have "(of_nat (Suc n) :: 'w word) \<noteq> 0" by (intro of_nat_neq_0) simp_all
  then show ?thesis by simp
qed

text \<open>
  Claim C10.  With \<open>maxIterations = 0\<close>, after any number \<open>n\<close> of rounds short of the
  wrap-around of the counter (\<open>n < 2 ^ w - 1\<close>, so every number of rounds a run can
  reach) the guard \<open>t \<noteq> maxIterations\<close> lets the loop go on: a further round runs,
  and the loop is left only when that round's improvement is below \<open>1e-2\<close> (or the
  round itself fails); otherwise the loop goes on with the counter at \<open>n + 2\<close>.  The
  number of rounds is not bounded by \<open>maxIterations\<close>.
\<close>

theorem Encode_zero_budget_guard_passes:
  assumes "n < 2 ^ LENGTH('w) - 1"
  shows "Encode_loop E (1 + of_nat n :: 'w::len word) 0 lastObjVal adjacencies s rng =
     (case Encode_round E adjacencies s rng of
        None \<Rightarrow> None
      | Some (Inl e) \<Rightarrow> Some (Inl e)
      | Some (Inr (s', rng', adjacencies', curObjVal)) \<Rightarrow>
          if lastObjVal - curObjVal < 1 / 100 then Some (Inr (s', rng'))
          else Encode_loop E (1 + of_nat (Suc n) :: 'w word) 0 curObjVal adjacencies' s' rng')"
proof -
  have g: "(1 + of_nat n :: 'w word) \<noteq> 0" using counter_not_wrapped [OF assms] .
  have c: "(1 + of_nat n :: 'w word) + 1 = 1 + of_nat (Suc n)" by simp
  show ?thesis
    by (subst Encode_loop.simps) (simp only: g c not_False_eq_True if_True OBJ_TOL_def Let_def)
qed

text \<open>
  \<open>Encode\<close> with \<open>maxIterations = 0\<close> on the stationary instance: the guard passes at
  the counter values 1 and 2, two rounds run, and the second, which improves by
  nothing, is the last.  And after five rounds the sixth round still runs; on the
  instance with the weight \<open>1 / 2\<close> it raises the objective from 0 to \<open>3 / 8\<close> and so is
  the last.
\<close>

theorem Encode_zero_budget_guard_passes_witness:
  "(0 :: nat) < 2 ^ 64 - 1 \<and> (1 :: nat) < 2 ^ 64 - 1
   \<and> Encode one_atom_ext (0 :: 64 word) (unit_state 0) () = Some (Inr (unit_state 0, ()))
   \<and> (5 :: nat) < 2 ^ 64 - 1
   \<and> Encode_loop one_atom_ext (1 + of_nat 5 :: 64 word) 0 0 [0] (unit_state (1 / 2)) ()
       = Some (Inr (unit_state (1 / 2)\<lparr>codes := \<lparr>n_cols = 1, rws = [[1 / 2]]\<rparr>\<rparr>, ()))"
proof -
  have h0: "(0 :: nat) < 2 ^ LENGTH(64) - 1" by simp
  have h1: "(1 :: nat) < 2 ^ LENGTH(64) - 1" by simp
  have h5: "(5 :: nat) < 2 ^ LENGTH(64) - 1" by simp
  have big: "\<not> DBL_MAX - 0 < 1 / 100" using DBL_MAX_large by (simp add: OBJ_TOL_def)
  have r1: "Encode_loop one_atom_ext (1 :: 64 word) 0 DBL_MAX [0] (unit_state 0) ()
      = Encode_loop one_atom_ext (2 :: 64 word) 0 0 [0] (unit_state 0) ()"
    using Encode_zero_budget_guard_passes [OF h0, of one_atom_ext DBL_MAX "[0]" "unit_state 0" "()"] big
    by (simp add: unit_round_zero)
  have r2: "Encode_loop one_atom_ext (2 :: 64 word) 0 0 [0] (unit_state 0) ()
      = Some (Inr (unit_state 0, ()))"
    using Encode_zero_budget_guard_passes [OF h1, of one_atom_ext 0 "[0]" "unit_state 0" "()"]
    by (simp add: unit_round_zero)
  have e: "Encode one_atom_ext (0 :: 64 word) (unit_state 0) () = Some (Inr (unit_state 0, ()))"
    by (simp add: Encode_def unit_OptimizeCode_zero unit_Objective unit_find r1 r2)
  have l: "Encode_loop one_atom_ext (1 + of_nat 5 :: 64 word) 0 0 [0] (unit_state (1 / 2)) ()
       = Some (Inr (unit_state (1 / 2)\<lparr>codes := \<lparr>n_cols = 1, rws = [[1 / 2]]\<rparr>\<rparr>, ()))"
    using Encode_zero_budget_guard_passes [OF h5, of one_atom_ext 0 "[0]" "unit_state (1 / 2)" "()"]
    by (simp add: unit_round_half)
  show ?thesis using e l by simp
qed

subsection \<open>Construction\<close>

text \<open>
  Claim C1, as the code has it.  The constructor inspects none of its arguments: it
  fails exactly when the dictionary initializer fails, with the initializer's fault,
  whatever the atom count and the two weights are.
\<close>

theorem SparseCoding_fails_only_with_initializer:
  "(SparseCoding Initialize uninit X K l1 l2 = Inl e) = (Initialize X K empty_mat = Inl e)"
  by (cases "Initialize X K empty_mat") (simp_all add: SparseCoding_def)

text \<open>
  With an initializer that returns a zero dictionary of the requested shape,
  construction yields an object for an atom count of 0 with \<open>lambda1 = 0\<close> and
  \<open>lambda2 = -1\<close>, and for three atoms on two-dimensional data.
\<close>

theorem SparseCoding_accepts_nonpositive_arguments:
  "SparseCoding (\<lambda>X K D. Inr (zeros (n_rows X) K)) (\<lambda>i j. 0)
       \<lparr>n_cols = 2, rws = [[1, 2], [3, 4]]\<rparr> 0 0 (- 1)
     = Inr \<lparr>atoms = 0, data = \<lparr>n_cols = 2, rws = [[1, 2], [3, 4]]\<rparr>,
            dictionary = \<lparr>n_cols = 0, rws = [[], []]\<rparr>,
            codes = \<lparr>n_cols = 2, rws = []\<rparr>, lambda1 = 0, lambda2 = - 1\<rparr>
   \<and> SparseCoding (\<lambda>X K D. Inr (zeros (n_rows X) K)) (\<lambda>i j. 0)
       \<lparr>n_cols = 2, rws = [[1, 2], [3, 4]]\<rparr> 3 1 1
     = Inr \<lparr>atoms = 3, data = \<lparr>n_cols = 2, rws = [[1, 2], [3, 4]]\<rparr>,
            dictionary = \<lparr>n_cols = 3, rws = [[0, 0, 0], [0, 0, 0]]\<rparr>,
            codes = \<lparr>n_cols = 2, rws = [[0, 0], [0, 0], [0, 0]]\<rparr>, lambda1 = 1, lambda2 = 1\<rparr>"
  by (simp add: SparseCoding_def zeros_def n_rows_def set_size_def eval_nat_numeral upt_rec)




subsection \<open>The objective\<close>

text \<open>
  The matrix operations of the objective, entry by entry: the sum of all entries is
  the double sum over rows and columns, the squared Frobenius norm the double sum of
  the squared entries, and the product and the difference have the usual entries.
\<close>

lemma sum_list_nth_lessThan: "sum_list xs = (\<Sum>i<length xs. xs ! i)" for xs :: "real list"
  by (simp add: sum_list_sum_nth atLeast0LessThan)

lemma sum_all_entries:
  assumes "wf_mat M"
  shows "sum_all M = (\<Sum>i<n_rows M. \<Sum>j<n_cols M. rws M ! i ! j)"
proof -
  have "sum_all M = (\<Sum>i<length (rws M). sum_list (rws M ! i))"
    by (simp add: sum_all_def sum_list_nth_lessThan [of "map sum_list (rws M)"])
  also have "\<dots> = (\<Sum>i<length (rws M). \<Sum>j<n_cols M. rws M ! i ! j)"
  proof (rule sum.cong)
    fix i assume "i \<in> {..<length (rws M)}"
    then have "length (rws M ! i) = n_cols M"
      using assms by (simp add: wf_mat_def list_all_length)
    then show "sum_list (rws M ! i) = (\<Sum>j<n_cols M. rws M ! i ! j)"
      by (simp add: sum_list_nth_lessThan [of "rws M ! i"])
  qed simp
  finally show ?thesis by (simp add: n_rows_def)
qed

lemma mat_map_entries:
  assumes "wf_mat M"
  shows "wf_mat (mat_map f M)" "n_rows (mat_map f M) = n_rows M" "n_cols (mat_map f M) = n_cols M"
    "i < n_rows M \<Longrightarrow> j < n_cols M \<Longrightarrow> rws (mat_map f M) ! i ! j = f (rws M ! i ! j)"
  using assms by (simp_all add: mat_map_def wf_mat_def n_rows_def list_all_length)

lemma sum_all_mat_map:
  assumes "wf_mat M"
  shows "sum_all (mat_map f M) = (\<Sum>i<n_rows M. \<Sum>j<n_cols M. f (rws M ! i ! j))"
proof -
  note E = mat_map_entries [OF assms, where f = f]
  show ?thesis using sum_all_entries [OF E(1)] E(2-4) by simp
qed

lemma norm_fro_squared:
  assumes "wf_mat M"
  shows "(norm_fro M)\<^sup>2 = (\<Sum>i<n_rows M. \<Sum>j<n_cols M. (rws M ! i ! j)\<^sup>2)"
proof -
  have "0 \<le> (\<Sum>i<n_rows M. \<Sum>j<n_cols M. rws M ! i ! j * rws M ! i ! j)"
    by (intro sum_nonneg) simp
  then show ?thesis
    by (simp add: norm_fro_def sum_all_mat_map [OF assms] power2_eq_square)
qed

lemma mat_mult_entries:
  assumes "wf_mat A" "wf_mat B" "n_cols A = n_rows B"
  shows "\<exists>C. mat_mult A B = Inr C \<and> wf_mat C \<and> n_rows C = n_rows A \<and> n_cols C = n_cols B
     \<and> (\<forall>i<n_rows A. \<forall>j<n_cols B.
           rws C ! i ! j = (\<Sum>k<n_cols A. rws A ! i ! k * rws B ! k ! j))"
proof -
  let ?C = "\<lparr>n_cols = n_cols B,
             rws = map (\<lambda>ra. map (\<lambda>j. sum_list (map (\<lambda>(x, rb). x * rb ! j) (zip ra (rws B))))
                        [0..<n_cols B]) (rws A)\<rparr>"
  have C: "mat_mult A B = Inr ?C" using assms(3) by (simp add: mat_mult_def)
  have e: "rws ?C ! i ! j = (\<Sum>k<n_cols A. rws A ! i ! k * rws B ! k ! j)"
    if "i < n_rows A" "j < n_cols B" for i j
  proof -
    have l: "length (rws A ! i) = n_cols A"
      using assms(1) that(1) by (simp add: wf_mat_def list_all_length n_rows_def)
    have lz: "length (map (\<lambda>(x, rb). x * rb ! j) (zip (rws A ! i) (rws B))) = n_cols A"
      using l assms(3) by (simp add: n_rows_def)
    have "rws ?C ! i ! j = sum_list (map (\<lambda>(x, rb). x * rb ! j) (zip (rws A ! i) (rws B)))"
      using that by (simp add: n_rows_def)
    also have "\<dots> = (\<Sum>k<n_cols A. map (\<lambda>(x, rb). x * rb ! j) (zip (rws A ! i) (rws B)) ! k)"
      using lz by (simp add: sum_list_nth_lessThan [of "map (\<lambda>(x, rb). x * rb ! j) (zip (rws A ! i) (rws B))"])
    also have "\<dots> = (\<Sum>k<n_cols A. rws A ! i ! k * rws B ! k ! j)"
      using l assms(3) by (intro sum.cong) (simp_all add: n_rows_def)
    finally show ?thesis .
  qed
  have "wf_mat ?C" by (simp add: wf_mat_def list_all_iff)
  moreover have "n_rows ?C = n_rows A" "n_cols ?C = n_cols B" by (simp_all add: n_rows_def)
  ultimately show ?thesis using C e by blast
qed

lemma mat_sub_entries:
  assumes "wf_mat A" "wf_mat B" "n_rows A = n_rows B" "n_cols A = n_cols B"
  shows "\<exists>C. mat_sub A B = Inr C \<and> wf_mat C \<and> n_rows C = n_rows A \<and> n_cols C = n_cols A
     \<and> (\<forall>i<n_rows A. \<forall>j<n_cols A. rws C ! i ! j = rws A ! i ! j - rws B ! i ! j)"
proof -
  let ?C = "\<lparr>n_cols = n_cols A,
             rws = map (\<lambda>(ra, rb). map (\<lambda>(x, y). x - y) (zip ra rb)) (zip (rws A) (rws B))\<rparr>"
  have C: "mat_sub A B = Inr ?C" using assms(3,4) by (simp add: mat_sub_def mat_zip_def)
  have lr: "length (rws A) = length (rws B)" using assms(3) by (simp add: n_rows_def)
  have la: "length (rws A ! i) = n_cols A" if "i < n_rows A" for i
    using assms(1) that by (simp add: wf_mat_def list_all_length n_rows_def)
  have lb: "length (rws B ! i) = n_cols A" if "i < n_rows A" for i
    using assms(2,3,4) that by (simp add: wf_mat_def list_all_length n_rows_def)
  have e: "rws ?C ! i ! j = rws A ! i ! j - rws B ! i ! j" if "i < n_rows A" "j < n_cols A" for i j
    using that la [OF that(1)] lb [OF that(1)] lr by (simp add: n_rows_def)
  have "wf_mat ?C"
    unfolding wf_mat_def list_all_length using la lb lr by (simp add: n_rows_def)
  moreover have "n_rows ?C = n_rows A" "n_cols ?C = n_cols A" using lr by (simp_all add: n_rows_def)
  ultimately show ?thesis using C e by blast
qed

lemma Objective_sums:
  assumes "wf_mat (data s)" "wf_mat (dictionary s)" "wf_mat (codes s)"
    and "n_rows (dictionary s) = n_rows (data s)" "n_cols (dictionary s) = n_rows (codes s)"
    and "n_cols (codes s) = n_cols (data s)"
  shows "Objective s = Inr
     (0.5 * (\<Sum>i<n_rows (data s). \<Sum>j<n_cols (data s).
               (rws (data s) ! i ! j
                 - (\<Sum>k<n_rows (codes s). rws (dictionary s) ! i ! k * rws (codes s) ! k ! j))\<^sup>2)
      + (if lambda2 s > 0
         then 0.5 * lambda2 s * (\<Sum>k<n_rows (codes s). \<Sum>j<n_cols (codes s). (rws (codes s) ! k ! j)\<^sup>2)
         else 0)
      + lambda1 s * (\<Sum>k<n_rows (codes s). \<Sum>j<n_cols (codes s). \<bar>rws (codes s) ! k ! j\<bar>))"
proof -
  obtain DZ where DZ: "mat_mult (dictionary s) (codes s) = Inr DZ" "wf_mat DZ"
      "n_rows DZ = n_rows (dictionary s)" "n_cols DZ = n_cols (codes s)"
      "\<forall>i<n_rows (dictionary s). \<forall>j<n_cols (codes s).
           rws DZ ! i ! j = (\<Sum>k<n_cols (dictionary s). rws (dictionary s) ! i ! k * rws (codes s) ! k ! j)"
    using mat_mult_entries [OF assms(2,3,5)] by blast
  obtain R where R: "mat_sub (data s) DZ = Inr R" "wf_mat R"
      "n_rows R = n_rows (data s)" "n_cols R = n_cols (data s)"
      "\<forall>i<n_rows (data s). \<forall>j<n_cols (data s). rws R ! i ! j = rws (data s) ! i ! j - rws DZ ! i ! j"
    using mat_sub_entries [OF assms(1) DZ(2)] DZ(3,4) assms(4,6) by auto
  have res: "(norm_fro R)\<^sup>2 = (\<Sum>i<n_rows (data s). \<Sum>j<n_cols (data s).
               (rws (data s) ! i ! j
                 - (\<Sum>k<n_rows (codes s). rws (dictionary s) ! i ! k * rws (codes s) ! k ! j))\<^sup>2)"
    unfolding norm_fro_squared [OF R(2)] R(3,4)
    using R(5) DZ(5) assms(4,5,6) by (intro sum.cong refl) simp
  have l1: "sum_all (mat_map abs (codes s))
      = (\<Sum>k<n_rows (codes s). \<Sum>j<n_cols (codes s). \<bar>rws (codes s) ! k ! j\<bar>)"
    by (rule sum_all_mat_map [OF assms(3)])
  show ?thesis
    by (simp add: Objective_def Let_def DZ(1) R(1) res norm_fro_squared [OF assms(3)] l1
        algebra_simps)
qed

text \<open>
  Claim C7.  On an object whose matrices have conforming shapes (\<open>X\<close> is \<open>D \<times> N\<close>, the
  dictionary \<open>D \<times> K\<close>, the codes \<open>K \<times> N\<close>), \<open>Objective\<close> returns half the sum over all
  entries of the squared residual \<open>X - D Z\<close> plus \<open>lambda1\<close> times the sum of the absolute
  values of all code entries when \<open>lambda2 = 0\<close>, and adds half of \<open>lambda2\<close> times the
  sum of the squared code entries when \<open>lambda2 > 0\<close>; for the same data, dictionary
  and codes the two values differ by exactly that term.  \<open>Objective\<close> is a function of
  the object and returns no new object.
\<close>

theorem Objective_explicit_formula:
  assumes "wf_mat (data s)" "wf_mat (dictionary s)" "wf_mat (codes s)"
    and "n_rows (dictionary s) = n_rows (data s)" "n_cols (dictionary s) = n_rows (codes s)"
    and "n_cols (codes s) = n_cols (data s)"
  shows "(lambda2 s = 0 \<longrightarrow> Objective s = Inr
           (0.5 * (\<Sum>i<n_rows (data s). \<Sum>j<n_cols (data s).
                     (rws (data s) ! i ! j
                       - (\<Sum>k<n_rows (codes s). rws (dictionary s) ! i ! k * rws (codes s) ! k ! j))\<^sup>2)
            + lambda1 s * (\<Sum>k<n_rows (codes s). \<Sum>j<n_cols (codes s). \<bar>rws (codes s) ! k ! j\<bar>)))
       \<and> (lambda2 s > 0 \<longrightarrow> Objective s = Inr
           (0.5 * (\<Sum>i<n_rows (data s). \<Sum>j<n_cols (data s).
                     (rws (data s) ! i ! j
                       - (\<Sum>k<n_rows (codes s). rws (dictionary s) ! i ! k * rws (codes s) ! k ! j))\<^sup>2)
            + 0.5 * lambda2 s * (\<Sum>k<n_rows (codes s). \<Sum>j<n_cols (codes s). (rws (codes s) ! k ! j)\<^sup>2)
            + lambda1 s * (\<Sum>k<n_rows (codes s). \<Sum>j<n_cols (codes s). \<bar>rws (codes s) ! k ! j\<bar>)))
       \<and> (\<forall>l>0. \<exists>a b. Objective (s\<lparr>lambda2 := l\<rparr>) = Inr a \<and> Objective (s\<lparr>lambda2 := 0\<rparr>) = Inr b
              \<and> a - b = 0.5 * l * (\<Sum>k<n_rows (codes s). \<Sum>j<n_cols (codes s). (rws (codes s) ! k ! j)\<^sup>2))"
proof -
  note O = Objective_sums [OF assms]
  have Ol: "Objective (s\<lparr>lambda2 := l\<rparr>) = Inr
     (0.5 * (\<Sum>i<n_rows (data s). \<Sum>j<n_cols (data s).
               (rws (data s) ! i ! j
                 - (\<Sum>k<n_rows (codes s). rws (dictionary s) ! i ! k * rws (codes s) ! k ! j))\<^sup>2)
      + (if l > 0
         then 0.5 * l * (\<Sum>k<n_rows (codes s). \<Sum>j<n_cols (codes s). (rws (codes s) ! k ! j)\<^sup>2)
         else 0)
      + lambda1 s * (\<Sum>k<n_rows (codes s). \<Sum>j<n_cols (codes s). \<bar>rws (codes s) ! k ! j\<bar>))" for l
    using Objective_sums [of "s\<lparr>lambda2 := l\<rparr>"] assms by simp
  have c1: "lambda2 s = 0 \<longrightarrow> Objective s = Inr
           (0.5 * (\<Sum>i<n_rows (data s). \<Sum>j<n_cols (data s).
                     (rws (data s) ! i ! j
                       - (\<Sum>k<n_rows (codes s). rws (dictionary s) ! i ! k * rws (codes s) ! k ! j))\<^sup>2)
            + lambda1 s * (\<Sum>k<n_rows (codes s). \<Sum>j<n_cols (codes s). \<bar>rws (codes s) ! k ! j\<bar>))"
    using O by simp
  have c2: "lambda2 s > 0 \<longrightarrow> Objective s = Inr
           (0.5 * (\<Sum>i<n_rows (data s). \<Sum>j<n_cols (data s).
                     (rws (data s) ! i ! j
                       - (\<Sum>k<n_rows (codes s). rws (dictionary s) ! i ! k * rws (codes s) ! k ! j))\<^sup>2)
            + 0.5 * lambda2 s * (\<Sum>k<n_rows (codes s). \<Sum>j<n_cols (codes s). (rws (codes s) ! k ! j)\<^sup>2)
            + lambda1 s * (\<Sum>k<n_rows (codes s). \<Sum>j<n_cols (codes s). \<bar>rws (codes s) ! k ! j\<bar>))"
    using O by simp
  have c3: "\<exists>a b. Objective (s\<lparr>lambda2 := l\<rparr>) = Inr a \<and> Objective (s\<lparr>lambda2 := 0\<rparr>) = Inr b
              \<and> a - b = 0.5 * l * (\<Sum>k<n_rows (codes s). \<Sum>j<n_cols (codes s). (rws (codes s) ! k ! j)\<^sup>2)"
    if "l > 0" for l
    using Ol [of l] Ol [of 0] that by simp
  show ?thesis using c1 c2 c3 by blast
qed

text \<open>
  Two atoms and two signals, with a negative code entry and a residual that is not
  zero: the residual has entries \<open>0, 1, 3, 2\<close>, the absolute values of the codes sum to
  4 and their squares to 6, so the objective is \<open>7 + 3 * 4 = 19\<close> for \<open>lambda2 = 0\<close>
  and \<open>19 + 0.5 * 4 * 6 = 31\<close> for \<open>lambda2 = 4\<close>.
\<close>

theorem Objective_explicit_formula_witness:
  "wf_mat (data (mixed_sign_state 0)) \<and> wf_mat (dictionary (mixed_sign_state 0))
   \<and> wf_mat (codes (mixed_sign_state 0))
   \<and> n_rows (dictionary (mixed_sign_state 0)) = n_rows (data (mixed_sign_state 0))
   \<and> n_cols (dictionary (mixed_sign_state 0)) = n_rows (codes (mixed_sign_state 0))
   \<and> n_cols (codes (mixed_sign_state 0)) = n_cols (data (mixed_sign_state 0))
   \<and> Objective (mixed_sign_state 0) = Inr 19
   \<and> Objective (mixed_sign_state 4) = Inr 31"
proof -
  let ?s = "mixed_sign_state 0"
  have h: "wf_mat (data ?s)" "wf_mat (dictionary ?s)" "wf_mat (codes ?s)"
    "n_rows (dictionary ?s) = n_rows (data ?s)" "n_cols (dictionary ?s) = n_rows (codes ?s)"
    "n_cols (codes ?s) = n_cols (data ?s)"
    by (simp_all add: mixed_sign_state_def wf_mat_def n_rows_def)
  note T = Objective_explicit_formula [OF h]
  have l0: "lambda2 ?s = 0" by (simp add: mixed_sign_state_def)
  have v: "0.5 * (\<Sum>i<n_rows (data ?s). \<Sum>j<n_cols (data ?s).
                     (rws (data ?s) ! i ! j
                       - (\<Sum>k<n_rows (codes ?s). rws (dictionary ?s) ! i ! k * rws (codes ?s) ! k ! j))\<^sup>2)
            + lambda1 ?s * (\<Sum>k<n_rows (codes ?s). \<Sum>j<n_cols (codes ?s). \<bar>rws (codes ?s) ! k ! j\<bar>)
          = 19"
    by (simp add: mixed_sign_state_def n_rows_def numeral_2_eq_2)
  have a: "Objective ?s = Inr 19"
    using T [THEN conjunct1, rule_format, OF l0] by (simp only: v)
  have sq: "(\<Sum>k<n_rows (codes ?s). \<Sum>j<n_cols (codes ?s). (rws (codes ?s) ! k ! j)\<^sup>2) = 6"
    by (simp add: mixed_sign_state_def n_rows_def numeral_2_eq_2)
  obtain x y where xy: "Objective (?s\<lparr>lambda2 := 4\<rparr>) = Inr x" "Objective (?s\<lparr>lambda2 := 0\<rparr>) = Inr y"
      "x - y = 0.5 * 4 * (\<Sum>k<n_rows (codes ?s). \<Sum>j<n_cols (codes ?s). (rws (codes ?s) ! k ! j)\<^sup>2)"
    using T [THEN conjunct2, THEN conjunct2, rule_format, of 4] by auto
  have e0: "?s\<lparr>lambda2 := 0\<rparr> = ?s" and e4: "?s\<lparr>lambda2 := 4\<rparr> = mixed_sign_state 4"
    by (simp_all add: mixed_sign_state_def)
  have "y = 19" using xy(2) a e0 by simp
  then have "x = 31" using xy(3) sq by simp
  then show ?thesis using h a xy(1) e4 by simp
qed

subsection \<open>The dictionary step\<close>

lemma count_neighbors_loop_in_range:
  "0 < K \<Longrightarrow> \<forall>a\<in>set rest. a < K * n \<Longrightarrow> cur < n \<Longrightarrow> length nc = n \<Longrightarrow>
   \<exists>c. count_neighbors_loop K rest cur nxt nc = Inr c"
proof (induction rest arbitrary: cur nxt nc)
  case Nil
  then show ?case by simp
next
  case (Cons a rest)
  have "a < K * n" using Cons.prems(2) by simp
  then have d: "a div K < n" using Cons.prems(1) by (simp add: less_mult_imp_div_less mult.commute)
  define cur' where "cur' = (if nxt \<le> a then a div K else cur)"
  have c: "cur' < n" using d Cons.prems(3) by (simp add: cur'_def)
  have r: "\<forall>a\<in>set rest. a < K * n" using Cons.prems(2) by simp
  have l: "length (nc[cur' := nc ! cur' + 1]) = n" using Cons.prems(4) by simp
  show ?case
    using Cons.IH [OF Cons.prems(1) r c l] c Cons.prems(4)
    by (simp add: Let_def cur'_def)
qed

lemma count_neighbors_in_range:
  assumes "\<forall>a\<in>set adjacencies. a < K * n"
  shows "\<exists>c. count_neighbors K n adjacencies = Inr c"
proof (cases adjacencies)
  case Nil
  then show ?thesis by (simp add: count_neighbors_def)
next
  case (Cons a0 rest)
  have a0: "a0 < K * n" using assms Cons by simp
  then have K: "0 < K" by (cases K) simp_all
  have d: "a0 div K < n" using a0 K by (simp add: less_mult_imp_div_less mult.commute)
  have r: "\<forall>a\<in>set rest. a < K * n" using assms Cons by simp
  show ?thesis
    using count_neighbors_loop_in_range [OF K r d, of "replicate n 0"] K Cons
    by (simp add: count_neighbors_def Let_def)
qed

lemma partition_atoms_filter:
  "partition_atoms C js ia aa = Inr (ia', aa') \<Longrightarrow>
   ia' = ia @ filter (\<lambda>j. list_all (\<lambda>x. x = 0) (rws C ! j)) js
   \<and> aa' = aa @ filter (\<lambda>j. \<not> list_all (\<lambda>x. x = 0) (rws C ! j)) js"
proof (induction js arbitrary: ia aa)
  case Nil
  then show ?case by simp
next
  case (Cons j js)
  have z: "(length (filter (\<lambda>x. x \<noteq> 0) r) = 0) = list_all (\<lambda>x. x = 0) r" for r :: "real list"
    by (induction r) simp_all
  show ?case
  proof (cases "j < n_rows C")
    case False
    then show ?thesis using Cons.prems by (simp add: row_def)
  next
    case True
    show ?thesis
    proof (cases "list_all (\<lambda>x. x = 0) (rws C ! j)")
      case True
      then have "partition_atoms C js (ia @ [j]) aa = Inr (ia', aa')"
        using Cons.prems \<open>j < n_rows C\<close> z [of "rws C ! j"] by (simp add: row_def)
      from Cons.IH [OF this] True show ?thesis by simp
    next
      case False
      then have "partition_atoms C js ia (aa @ [j]) = Inr (ia', aa')"
        using Cons.prems \<open>j < n_rows C\<close> z [of "rws C ! j"] by (simp add: row_def)
      from Cons.IH [OF this] False show ?thesis by simp
    qed
  qed
qed

text \<open>
  Claim C9.  For two adjacency arguments, each a set of linear indices of the code
  matrix (below \<open>atoms * N\<close>), the dictionary step has the same outcome from the
  same object and the same generator state: the neighbour counts are computed and
  dropped.  The partition comes from the code matrix alone: the inactive
  atoms are the indices whose code row is all zero, the active atoms the others.
\<close>

theorem OptimizeDictionary_ignores_adjacencies:
  assumes "\<forall>a\<in>set adj1. a < atoms s * n_cols (data s)"
    and "\<forall>a\<in>set adj2. a < atoms s * n_cols (data s)"
  shows "OptimizeDictionary E adj1 s rng = OptimizeDictionary E adj2 s rng
       \<and> (\<forall>inactiveAtoms activeAtoms codesXT codesZT.
            active_system E s = Inr (inactiveAtoms, activeAtoms, codesXT, codesZT) \<longrightarrow>
            inactiveAtoms = filter (\<lambda>j. list_all (\<lambda>x. x = 0) (rws (codes s) ! j)) [0..<atoms s]
            \<and> activeAtoms = filter (\<lambda>j. \<not> list_all (\<lambda>x. x = 0) (rws (codes s) ! j)) [0..<atoms s])"
proof -
  obtain c1 where c1: "count_neighbors (atoms s) (n_cols (data s)) adj1 = Inr c1"
    using count_neighbors_in_range [OF assms(1)] by blast
  obtain c2 where c2: "count_neighbors (atoms s) (n_cols (data s)) adj2 = Inr c2"
    using count_neighbors_in_range [OF assms(2)] by blast
  have eq: "OptimizeDictionary E adj1 s rng = OptimizeDictionary E adj2 s rng"
    by (simp add: OptimizeDictionary_def c1 c2)
  have part: "inactiveAtoms = filter (\<lambda>j. list_all (\<lambda>x. x = 0) (rws (codes s) ! j)) [0..<atoms s]
            \<and> activeAtoms = filter (\<lambda>j. \<not> list_all (\<lambda>x. x = 0) (rws (codes s) ! j)) [0..<atoms s]"
    if A: "active_system E s = Inr (inactiveAtoms, activeAtoms, codesXT, codesZT)"
    for inactiveAtoms activeAtoms codesXT codesZT
  proof -
    obtain ia aa where p: "partition_atoms (codes s) [0..<atoms s] [] [] = Inr (ia, aa)"
      using A by (cases "partition_atoms (codes s) [0..<atoms s] [] []")
        (auto simp: active_system_def)
    have "ia = inactiveAtoms \<and> aa = activeAtoms"
      using A p
      by (auto simp: active_system_def bindF_Inr_iff split: if_splits)
    then show ?thesis using partition_atoms_filter [OF p] by simp
  qed
  show ?thesis using eq part by blast
qed

text \<open>
  On the instance whose atom is at half its length the step doubles the atom, with
  the adjacency of the one nonzero code and with none.
\<close>

theorem OptimizeDictionary_ignores_adjacencies_witness:
  "0 < atoms (half_dictionary_state\<lparr>codes := M1\<rparr>) * n_cols (data (half_dictionary_state\<lparr>codes := M1\<rparr>))
   \<and> OptimizeDictionary one_atom_ext [0] (half_dictionary_state\<lparr>codes := M1\<rparr>) ()
       = Some (Inr (half_dictionary_state\<lparr>codes := M1, dictionary := M1\<rparr>, ()))
   \<and> OptimizeDictionary one_atom_ext [] (half_dictionary_state\<lparr>codes := M1\<rparr>) ()
       = Some (Inr (half_dictionary_state\<lparr>codes := M1, dictionary := M1\<rparr>, ()))"
proof -
  let ?s = "half_dictionary_state\<lparr>codes := M1\<rparr>"
  have h1: "\<forall>a\<in>set [0]. a < atoms ?s * n_cols (data ?s)"
    by (simp add: half_dictionary_state_def)
  have h2: "\<forall>a\<in>set []. a < atoms ?s * n_cols (data ?s)" by simp
  from OptimizeDictionary_ignores_adjacencies [OF h1 h2, of one_atom_ext "()"]
  have "OptimizeDictionary one_atom_ext [0] ?s () = OptimizeDictionary one_atom_ext [] ?s ()"
    by blast
  moreover have "0 < atoms ?s * n_cols (data ?s)" by (simp add: half_dictionary_state_def)
  ultimately show ?thesis using hd_OptimizeDictionary by simp
qed

text \<open>
  The adjacencies that \<open>Encode\<close> passes are those of \<^verbatim>\<open>find(codes)\<close>: they are
  linear indices of the code matrix.
\<close>

lemma find_nonzero_in_range:
  "\<forall>a\<in>set (find_nonzero M). a < n_rows M * n_cols M"
proof
  fix a assume "a \<in> set (find_nonzero M)"
  then obtain i j where ij: "a = i + j * n_rows M" "i < n_rows M" "j < n_cols M"
    by (auto simp: find_nonzero_def)
  have "i + j * n_rows M < (j + 1) * n_rows M" using ij(2) by simp
  also have "\<dots> \<le> n_cols M * n_rows M" using ij(3) by (intro mult_le_mono1) simp
  finally show "a < n_rows M * n_cols M" using ij(1) by (simp add: mult.commute)
qed

lemma set_col_shape:
  assumes "set_col M j v = Inr M'" and "wf_mat M"
  shows "wf_mat M' \<and> n_cols M' = n_cols M \<and> n_rows M' = n_rows M"
proof -
  have M': "M' = M\<lparr>rws := map (\<lambda>(r, x). r[j := x]) (zip (rws M) v)\<rparr>" and l: "length v = n_rows M"
    using assms(1) by (auto simp: set_col_def split: if_splits)
  show ?thesis
    using assms(2) l unfolding M' wf_mat_def n_rows_def list_all_iff
    by (auto dest: set_zip_leftD)
qed

lemma col_set_col_same:
  assumes "set_col M j v = Inr M'" and "wf_mat M"
  shows "col M' j = Inr v"
proof -
  have M': "M' = M\<lparr>rws := map (\<lambda>(r, x). r[j := x]) (zip (rws M) v)\<rparr>"
    and l: "length v = length (rws M)" and j: "j < n_cols M"
    using assms(1) by (auto simp: set_col_def n_rows_def split: if_splits)
  have "map (\<lambda>r. r ! j) (map (\<lambda>(r, x). r[j := x]) (zip (rws M) v)) = map snd (zip (rws M) v)"
    using assms(2) j unfolding wf_mat_def list_all_iff
    by (auto dest: set_zip_leftD)
  also have "\<dots> = v" using l by simp
  finally show ?thesis using j by (simp add: M' col_def)
qed

lemma col_set_col_other:
  assumes "set_col M j v = Inr M'" and "k \<noteq> j"
  shows "col M' k = col M k"
proof -
  have M': "M' = M\<lparr>rws := map (\<lambda>(r, x). r[j := x]) (zip (rws M) v)\<rparr>"
    and l: "length v = length (rws M)"
    using assms(1) by (auto simp: set_col_def n_rows_def split: if_splits)
  have "map (\<lambda>r. r ! k) (map (\<lambda>(r, x). r[j := x]) (zip (rws M) v)) = map (\<lambda>r. r ! k) (map fst (zip (rws M) v))"
    using assms(2) by auto
  also have "\<dots> = map (\<lambda>r. r ! k) (rws M)" using l by simp
  finally show ?thesis by (simp add: M' col_def)
qed

lemma norm2_normalised:
  assumes "norm2 a \<noteq> 0"
  shows "norm2 (map (\<lambda>x. x / norm2 a) a) = 1"
proof -
  let ?q = "sum_list (map (\<lambda>x. x * x) a)"
  have q0: "0 \<le> ?q" by (induction a) simp_all
  have n: "norm2 a * norm2 a = ?q" using q0 by (simp add: norm2_def)
  have "sum_list (map (\<lambda>x. x / n * (x / n)) a) = ?q / (n * n)" for n :: real
    by (induction a) (simp_all add: add_divide_distrib)
  then have "sum_list (map (\<lambda>x. x / norm2 a * (x / norm2 a)) a) = ?q / (norm2 a * norm2 a)" .
  also have "\<dots> = 1"
  proof -
    have "norm2 a * norm2 a \<noteq> 0" using assms by simp
    then have "norm2 a * norm2 a / (norm2 a * norm2 a) = 1" by (rule divide_self)
    then show ?thesis by (simp only: n)
  qed
  finally show ?thesis by (simp add: norm2_def comp_def)
qed

lemma reinit_atoms_unit_norm:
  "reinit_atoms E X D rng js = Inr (D', rng') \<Longrightarrow> wf_mat D \<Longrightarrow> distinct js \<Longrightarrow>
   wf_mat D' \<and> n_cols D' = n_cols D \<and> n_rows D' = n_rows D
   \<and> (\<forall>j\<in>set js. \<exists>c. col D' j = Inr c \<and> norm2 c = 1)
   \<and> (\<forall>k. k \<notin> set js \<longrightarrow> col D' k = col D k)"
proof (induction js arbitrary: D rng)
  case Nil
  then show ?case by simp
next
  case (Cons j js)
  obtain k1 rng1 where r1: "RandInt E rng (n_cols X) = (k1, rng1)" by (cases "RandInt E rng (n_cols X)")
  obtain k2 rng2 where r2: "RandInt E rng1 (n_cols X) = (k2, rng2)" by (cases "RandInt E rng1 (n_cols X)")
  obtain k3 rng3 where r3: "RandInt E rng2 (n_cols X) = (k3, rng3)" by (cases "RandInt E rng2 (n_cols X)")
  from Cons.prems(1) obtain c123 D1 atom D2 where
      s1: "set_col D j c123 = Inr D1" and a: "col D1 j = Inr atom" and nz: "norm2 atom \<noteq> 0"
      and s2: "set_col D1 j (map (\<lambda>x. x / norm2 atom) atom) = Inr D2"
      and rest: "reinit_atoms E X D2 rng3 js = Inr (D', rng')"
    by (auto simp: r1 r2 r3 bindF_Inr_iff split: if_splits)
  have w1: "wf_mat D1 \<and> n_cols D1 = n_cols D \<and> n_rows D1 = n_rows D"
    using set_col_shape [OF s1 Cons.prems(2)] .
  have w2: "wf_mat D2 \<and> n_cols D2 = n_cols D1 \<and> n_rows D2 = n_rows D1"
    using set_col_shape [OF s2] w1 by simp
  have cj: "col D2 j = Inr (map (\<lambda>x. x / norm2 atom) atom)"
    using col_set_col_same [OF s2] w1 by simp
  have ck: "col D2 k = col D k" if "k \<noteq> j" for k
    using col_set_col_other [OF s2 that] col_set_col_other [OF s1 that] by simp
  have d: "distinct js" and jn: "j \<notin> set js" using Cons.prems(3) by simp_all
  note IH = Cons.IH [OF rest _ d]
  have ih: "wf_mat D' \<and> n_cols D' = n_cols D2 \<and> n_rows D' = n_rows D2
   \<and> (\<forall>j\<in>set js. \<exists>c. col D' j = Inr c \<and> norm2 c = 1)
   \<and> (\<forall>k. k \<notin> set js \<longrightarrow> col D' k = col D2 k)"
    using IH w2 by simp
  have "col D' j = Inr (map (\<lambda>x. x / norm2 atom) atom)" using ih jn cj by simp
  then have "\<exists>c. col D' j = Inr c \<and> norm2 c = 1" using norm2_normalised [OF nz] by simp
  then show ?case using ih w1 w2 ck by auto
qed

lemma copy_active_columns:
  "copy_active Aest as i D = Inr D' \<Longrightarrow> wf_mat D \<Longrightarrow> distinct as \<Longrightarrow>
   wf_mat D' \<and> n_cols D' = n_cols D \<and> n_rows D' = n_rows D
   \<and> (\<forall>m<length as. col D' (as ! m) = col Aest (i + m))
   \<and> (\<forall>k. k \<notin> set as \<longrightarrow> col D' k = col D k)"
proof (induction as arbitrary: i D)
  case Nil
  then show ?case by simp
next
  case (Cons a as)
  from Cons.prems(1) obtain c D1 where
      c: "col Aest i = Inr c" and s1: "set_col D a c = Inr D1"
      and rest: "copy_active Aest as (i + 1) D1 = Inr D'"
    by (auto simp: bindF_Inr_iff)
  have w1: "wf_mat D1 \<and> n_cols D1 = n_cols D \<and> n_rows D1 = n_rows D"
    using set_col_shape [OF s1 Cons.prems(2)] .
  have d: "distinct as" and an: "a \<notin> set as" using Cons.prems(3) by simp_all
  have ih: "wf_mat D' \<and> n_cols D' = n_cols D1 \<and> n_rows D' = n_rows D1
   \<and> (\<forall>m<length as. col D' (as ! m) = col Aest (i + 1 + m))
   \<and> (\<forall>k. k \<notin> set as \<longrightarrow> col D' k = col D1 k)"
    using Cons.IH [OF rest _ d] w1 by simp
  have ca: "col D' a = col Aest i"
    using ih an col_set_col_same [OF s1 Cons.prems(2)] c by simp
  have "col D' ((a # as) ! m) = col Aest (i + m)" if "m < length (a # as)" for m
  proof (cases m)
    case 0
    then show ?thesis using ca by simp
  next
    case (Suc m')
    then show ?thesis using ih that by simp
  qed
  moreover have "col D' k = col D k" if "k \<notin> set (a # as)" for k
    using that ih col_set_col_other [OF s1, of k] by simp
  ultimately show ?case using ih w1 by simp
qed

lemma wf_zeros: "wf_mat (zeros r c)"
  by (simp add: wf_mat_def zeros_def list_all_iff)

text \<open>
  What the dictionary step leaves in the dictionary when it returns without a fault,
  hence when no new atom had a zero sum: the column of each inactive atom has norm 1,
  and the column of the \<open>m\<close>-th active atom is column \<open>m\<close> of the transpose of
  \<^verbatim>\<open>solve(codesZT + diagmat(dualVars), codesXT)\<close>, \<open>dualVars\<close> being what Newton's
  method returned.
\<close>

lemma OptimizeDictionary_columns:
  assumes "OptimizeDictionary E adjacencies s rng = Some (Inr (s', rng'))"
  shows "\<exists>inactiveAtoms activeAtoms codesXT codesZT dualVars A S.
      active_system E s = Inr (inactiveAtoms, activeAtoms, codesXT, codesZT)
    \<and> newton E codesXT codesZT (length activeAtoms) (replicate (length activeAtoms) 0)
        = Some (Inr dualVars)
    \<and> mat_add codesZT (diagmat dualVars) = Inr A \<and> solve E A codesXT = Inr S
    \<and> (\<forall>j\<in>set inactiveAtoms. \<exists>c. col (dictionary s') j = Inr c \<and> norm2 c = 1)
    \<and> (\<forall>m<length activeAtoms. col (dictionary s') (activeAtoms ! m) = col (trans_mat S) m)"
proof -
  from assms obtain ia aa XT ZT dualVars Dest where
      act: "active_system E s = Inr (ia, aa, XT, ZT)"
      and nw: "newton E XT ZT (length aa) (replicate (length aa) 0) = Some (Inr dualVars)"
      and est: "dictionary_estimate E s ia aa XT ZT dualVars rng = Inr (Dest, rng')"
      and s': "s' = s\<lparr>dictionary := Dest\<rparr>"
    by (auto simp: OptimizeDictionary_def split: sum.splits option.splits prod.splits)
  from est [unfolded dictionary_estimate_def Let_def] obtain A S where A: "mat_add ZT (diagmat dualVars) = Inr A" and S: "solve E A XT = Inr S"
      and fin: "(if ia = [] then Inr (trans_mat S, rng)
          else bindF (copy_active (trans_mat S) aa 0 (zeros (n_rows (data s)) (atoms s)))
                 (\<lambda>D1. reinit_atoms E (data s) D1 rng ia)) = Inr (Dest, rng')"
    by (auto simp: bindF_Inr_iff)
  obtain ia0 aa0 where p: "partition_atoms (codes s) [0..<atoms s] [] [] = Inr (ia0, aa0)"
    using act by (cases "partition_atoms (codes s) [0..<atoms s] [] []")
      (auto simp: active_system_def)
  have "ia0 = ia \<and> aa0 = aa"
    using act p by (auto simp: active_system_def bindF_Inr_iff split: if_splits)
  then have parts: "ia = filter (\<lambda>j. list_all (\<lambda>x. x = 0) (rws (codes s) ! j)) [0..<atoms s]"
      "aa = filter (\<lambda>j. \<not> list_all (\<lambda>x. x = 0) (rws (codes s) ! j)) [0..<atoms s]"
    using partition_atoms_filter [OF p] by simp_all
  have dia: "distinct ia" and daa: "distinct aa" and disj: "set ia \<inter> set aa = {}"
    using parts by auto
  have cols: "(\<forall>j\<in>set ia. \<exists>c. col Dest j = Inr c \<and> norm2 c = 1)
      \<and> (\<forall>m<length aa. col Dest (aa ! m) = col (trans_mat S) m)"
  proof (cases "ia = []")
    case True
    then have D: "Dest = trans_mat S" using fin by simp
    have "filter (\<lambda>j. list_all (\<lambda>x. x = 0) (rws (codes s) ! j)) [0..<atoms s] = []"
      using parts(1) True by simp
    then have "\<forall>j\<in>set [0..<atoms s]. \<not> list_all (\<lambda>x. x = 0) (rws (codes s) ! j)"
      by (simp only: filter_empty_conv) 
    then have "aa = [0..<atoms s]" using parts(2) by (simp add: filter_id_conv)
    then show ?thesis using True D by simp
  next
    case False
    from fin False obtain D1 where
        cp: "copy_active (trans_mat S) aa 0 (zeros (n_rows (data s)) (atoms s)) = Inr D1"
        and re: "reinit_atoms E (data s) D1 rng ia = Inr (Dest, rng')"
      by (auto simp: bindF_Inr_iff)
    note C = copy_active_columns [OF cp wf_zeros daa]
    note R = reinit_atoms_unit_norm [OF re _ dia]
    have r: "(\<forall>j\<in>set ia. \<exists>c. col Dest j = Inr c \<and> norm2 c = 1)
        \<and> (\<forall>k. k \<notin> set ia \<longrightarrow> col Dest k = col D1 k)"
      using R C by simp
    have "col Dest (aa ! m) = col (trans_mat S) m" if "m < length aa" for m
    proof -
      have "aa ! m \<in> set aa" using that by simp
      then have "aa ! m \<notin> set ia" using disj by auto
      then show ?thesis using r C that by simp
    qed
    then show ?thesis using r by simp
  qed
  show ?thesis using act nw A S cols by (auto simp: s')
qed

lemma zs_fields:
  "atoms zero_signal_state = 2" "data zero_signal_state = \<lparr>n_cols = 2, rws = [[0, 1], [0, 0]]\<rparr>"
  "codes zero_signal_state = \<lparr>n_cols = 2, rws = [[0, 1], [0, 0]]\<rparr>"
  by (simp_all add: zero_signal_state_def)

lemma zs_count: "count_neighbors 2 2 [2] = Inr [0, 0]"
  by (simp add: count_neighbors_def replicate_2)

lemma zs_partition:
  "partition_atoms \<lparr>n_cols = 2, rws = [[0, 1], [0, 0]]\<rparr> [0..<2] [] [] = Inr ([Suc 0], [0])"
  by (simp add: upt_0_2 row_def n_rows_def)

lemma zs_RemoveRows:
  "RemoveRows (\<lambda>i j. 0) \<lparr>n_cols = 2, rws = [[0, 1], [0, 0]]\<rparr> [Suc 0] = Inr Z1"
  by (simp add: RemoveRows_def RemoveRows_first_def RemoveRows_loop.simps RemoveRows_last_def
      span_rows_def set_span_rows_def set_size_def n_rows_def Let_def upt_0_2)

lemma zs_active:
  "active_system one_atom_ext zero_signal_state
     = Inr ([Suc 0], [0], \<lparr>n_cols = 2, rws = [[1, 0]]\<rparr>, M1)"
  by (simp add: active_system_def zs_fields zs_partition)
     (simp add: one_atom_ext_def zs_RemoveRows mat_defs upt_0_2)

lemma zs_direction:
  "newton_direction one_atom_ext X12 M1 (Suc 0) [0] = Inr (X12, [0], [0], 0)"
  by (simp add: newton_direction_def mat_defs one_atom_defs Let_def upt_0_2)

lemma zs_values:
  "armijo_values one_atom_ext X12 M1 X12 [0] [0] 1 = Inr (1, 1)"
  by (simp add: armijo_values_def mat_defs one_atom_defs upt_0_2)

lemma zs_armijo:
  "armijo one_atom_ext X12 M1 X12 [0] [0] 0 1 = Some (Inr ([0], 0))"
  by (subst armijo.simps) (simp add: zs_values)

lemma zs_newton:
  "newton one_atom_ext X12 M1 (Suc 0) [0] = Some (Inr [0])"
  by (subst newton.simps) (simp add: zs_direction zs_armijo vec_zip_def NEWTON_TOL_def)

lemma zs_estimate:
  "dictionary_estimate one_atom_ext zero_signal_state [Suc 0] [0] X12 M1 [0] () = Inl NonFinite"
  by (simp add: dictionary_estimate_def zs_fields)
     (simp add: mat_defs one_atom_defs upt_0_2 replicate_2 Let_def)

text \<open>
  Claim C8, at an input where it fails.  The first signal is zero and the second atom
  is inactive; the three draws all pick the first signal, the sum is the zero vector
  and its norm is 0: the new atom is \<open>0 / 0\<close>, not a unit vector.
\<close>

theorem OptimizeDictionary_zero_signal_not_finite:
  "OptimizeDictionary one_atom_ext (find_nonzero (codes zero_signal_state)) zero_signal_state ()
     = Some (Inl NonFinite)"
proof -
  have f: "find_nonzero \<lparr>n_cols = 2, rws = [[0, 1], [0, 0]]\<rparr> = [2]"
    by (simp add: find_nonzero_def n_rows_def upt_0_2)
  show ?thesis
    by (simp add: OptimizeDictionary_def zs_fields f zs_count zs_active zs_newton zs_estimate)
qed

subsection \<open>Projection of the dictionary\<close>

lemma col_length:
  "col M j = Inr c \<Longrightarrow> length c = n_rows M"
  by (auto simp: col_def n_rows_def split: if_splits)






end
